theory Spec2Isabelle
  imports Main "HOL-Library.Char_ord" "HOL-Library.List_Lexorder"
begin

section \<open>Values and entities\<close>

text \<open>
  The data layer (class \<open>GolfDB\<close> and the hook \<open>useGolfData\<close>) stores plain
  JavaScript objects. A value is what JSON and the structured clone of IndexedDB can
  carry, plus \<open>undefined\<close>, which a read of a missing property returns. Numbers are
  integers here (timestamps, scores, counters); fractions, \<open>NaN\<close> and object identity
  are outside the model, as are the functions an object inherits from its prototype.

  An object is the list of its own properties in insertion order, which is the order
  \<open>JSON.stringify\<close> and \<open>Object.entries\<close> follow for names that are not array
  indices.
\<close>

datatype jsval =
    JUndefined
  | JNull
  | JBool bool
  | JNum int
  | JStr string
  | JArr "jsval list"
  | JObj "(string \<times> jsval) list"

type_synonym entity = "(string \<times> jsval) list"

text \<open>\<open>obj[field]\<close> on an object: the own property, or \<open>undefined\<close>.\<close>

definition getField :: "entity \<Rightarrow> string \<Rightarrow> jsval" where
  "getField e k = (case map_of e k of Some v \<Rightarrow> v | None \<Rightarrow> JUndefined)"

text \<open>
  \<open>obj[field] = v\<close>, and one property of an object literal \<open>{...obj, field: v}\<close>: an
  existing property keeps its place and takes the new value, a new one goes last.
\<close>

fun setField :: "string \<Rightarrow> 'v \<Rightarrow> (string \<times> 'v) list \<Rightarrow> (string \<times> 'v) list" where
  "setField k v [] = [(k, v)]"
| "setField k v ((k', v') # e) =
     (if k' = k then (k, v) # e else (k', v') # setField k v e)"

text \<open>The spread \<open>{...x}\<close> of an entity or of \<open>null\<close> (which has no properties).\<close>

definition spread :: "entity option \<Rightarrow> entity" where
  "spread x = (case x of None \<Rightarrow> [] | Some e \<Rightarrow> e)"

text \<open>Truthiness, as \<open>!x\<close>, \<open>x && y\<close> and \<open>if (x)\<close> test it.\<close>

fun truthy :: "jsval \<Rightarrow> bool" where
  "truthy JUndefined = False"
| "truthy JNull = False"
| "truthy (JBool b) = b"
| "truthy (JNum n) = (n \<noteq> 0)"
| "truthy (JStr s) = (s \<noteq> [])"
| "truthy (JArr xs) = True"
| "truthy (JObj kvs) = True"

text \<open>
  \<open>a === b\<close>: primitives are compared by value; two arrays or objects read from
  different places are different references, so they are never equal.
\<close>

fun strict_eq :: "jsval \<Rightarrow> jsval \<Rightarrow> bool" where
  "strict_eq (JArr xs) b = False"
| "strict_eq (JObj kvs) b = False"
| "strict_eq a b = (a = b)"

text \<open>
  \<open>a > b\<close> and \<open>a < b\<close> on numbers, the declared type of \<open>lastModified\<close>
  (\<open>lastModified?: number\<close>). Operands of another type are outside the model (JavaScript
  converts them, or orders two strings); the comparison is false on them, and the
  theorems about it assume the declared type.
\<close>

fun js_gt :: "jsval \<Rightarrow> jsval \<Rightarrow> bool" where
  "js_gt (JNum a) (JNum b) = (a > b)"
| "js_gt a b = False"

fun js_lt :: "jsval \<Rightarrow> jsval \<Rightarrow> bool" where
  "js_lt (JNum a) (JNum b) = (a < b)"
| "js_lt a b = False"

fun isArray :: "jsval \<Rightarrow> bool" where
  "isArray (JArr xs) = True"
| "isArray v = False"

section \<open>The object stores\<close>

text \<open>
  An IndexedDB object store with a key path holds at most one record per key and
  returns its records in ascending key order. It is modelled as the list of
  (key, record) pairs in that order. Keys are strings, as the interfaces declare the ids
  (\<open>id: string\<close>); strings are ordered by their code units.

  Every request of \<open>GolfDB\<close> runs in a transaction of its own, so each operation is one
  atomic step on the store.
\<close>

type_synonym 'a objectStore = "(string \<times> 'a) list"

datatype error =
    NotFoundError
  | ConstraintError
  | DataError
  | TypeError
  | Error string

text \<open>
  \<open>NotFoundError\<close>: the transaction names a store the database does not have.
  \<open>ConstraintError\<close>: \<open>add\<close> of a key that is already there (the spec's
  \<open>DuplicateKey\<close>). \<open>DataError\<close>: the key path gives no valid key. \<open>TypeError\<close>: a
  property read on \<open>null\<close> or \<open>undefined\<close>. \<open>Error m\<close>: \<open>throw new Error(m)\<close>.
\<close>

fun store_put :: "string \<Rightarrow> 'a \<Rightarrow> 'a objectStore \<Rightarrow> 'a objectStore" where
  "store_put k v [] = [(k, v)]"
| "store_put k v ((k', v') # rs) =
     (if k < k' then (k, v) # (k', v') # rs
      else if k = k' then (k, v) # rs
      else (k', v') # store_put k v rs)"

definition store_get :: "string \<Rightarrow> 'a objectStore \<Rightarrow> 'a option" where
  "store_get k rs = map_of rs k"

definition store_add :: "string \<Rightarrow> 'a \<Rightarrow> 'a objectStore \<Rightarrow> error + 'a objectStore" where
  "store_add k v rs =
     (case store_get k rs of
        Some old \<Rightarrow> Inl ConstraintError
      | None \<Rightarrow> Inr (store_put k v rs))"

definition store_getAll :: "'a objectStore \<Rightarrow> 'a list" where
  "store_getAll rs = map snd rs"

definition store_delete :: "string \<Rightarrow> 'a objectStore \<Rightarrow> 'a objectStore" where
  "store_delete k rs = filter (\<lambda>r. fst r \<noteq> k) rs"

section \<open>The database\<close>

text \<open>
  \<open>init\<close> creates six stores. The four collections of the application (\<open>courses\<close>,
  \<open>rounds\<close>, \<open>holeScores\<close>, \<open>settings\<close>) hold entities and are addressed by name; the
  two internal stores hold the records \<open>storeConflict\<close> and \<open>addToSyncQueue\<close>
  build. Field names of the three records are prefixed (\<open>c_\<close>, \<open>cd_\<close>, \<open>q_\<close>)
  to keep them apart.
\<close>

record conflict =
  c_type :: string
  c_local :: "entity option"
  c_remote :: "entity option"

record conflictData =
  cd_id :: string
  cd_storeName :: string
  cd_conflict :: conflict
  cd_timestamp :: nat

record syncItem =
  q_id :: string
  q_storeName :: string
  q_operation :: string
  q_data :: jsval
  q_timestamp :: nat
  q_retries :: int
  q_status :: string

record golfdb =
  stores :: "string \<rightharpoonup> entity objectStore"
  conflicts :: "conflictData objectStore"
  syncQueue :: "syncItem objectStore"

definition init :: golfdb where
  "init = \<lparr> stores = [''courses'' \<mapsto> [], ''rounds'' \<mapsto> [], ''holeScores'' \<mapsto> [],
                       ''settings'' \<mapsto> []],
            conflicts = [], syncQueue = [] \<rparr>"

text \<open>The key path of a store: \<open>key\<close> for \<open>settings\<close>, \<open>id\<close> for the others.\<close>

definition keyPath :: "string \<Rightarrow> string" where
  "keyPath storeName = (if storeName = ''settings'' then ''key'' else ''id'')"

definition key_of :: "string \<Rightarrow> entity \<Rightarrow> string option" where
  "key_of storeName e =
     (case getField e (keyPath storeName) of JStr s \<Rightarrow> Some s | _ \<Rightarrow> None)"

definition add :: "string \<Rightarrow> entity \<Rightarrow> golfdb \<Rightarrow> error + golfdb" where
  "add storeName data db =
     (case stores db storeName of
        None \<Rightarrow> Inl NotFoundError
      | Some rs \<Rightarrow>
          (case key_of storeName data of
             None \<Rightarrow> Inl DataError
           | Some k \<Rightarrow>
               (case store_add k data rs of
                  Inl e \<Rightarrow> Inl e
                | Inr rs' \<Rightarrow> Inr (db\<lparr>stores := (stores db)(storeName \<mapsto> rs')\<rparr>))))"

definition put :: "string \<Rightarrow> entity \<Rightarrow> golfdb \<Rightarrow> error + golfdb" where
  "put storeName data db =
     (case stores db storeName of
        None \<Rightarrow> Inl NotFoundError
      | Some rs \<Rightarrow>
          (case key_of storeName data of
             None \<Rightarrow> Inl DataError
           | Some k \<Rightarrow> Inr (db\<lparr>stores := (stores db)(storeName \<mapsto> store_put k data rs)\<rparr>)))"

definition get :: "string \<Rightarrow> string \<Rightarrow> golfdb \<Rightarrow> error + entity option" where
  "get storeName key db =
     (case stores db storeName of
        None \<Rightarrow> Inl NotFoundError
      | Some rs \<Rightarrow> Inr (store_get key rs))"

definition getAll :: "string \<Rightarrow> golfdb \<Rightarrow> error + entity list" where
  "getAll storeName db =
     (case stores db storeName of
        None \<Rightarrow> Inl NotFoundError
      | Some rs \<Rightarrow> Inr (store_getAll rs))"

text \<open>
  \<open>delete(storeName, key)\<close> takes the key as the caller computed it (\<open>course.id\<close>):
  a value that is no key is refused, an absent key is no error.
\<close>

definition delete :: "string \<Rightarrow> jsval \<Rightarrow> golfdb \<Rightarrow> error + golfdb" where
  "delete storeName key db =
     (case stores db storeName of
        None \<Rightarrow> Inl NotFoundError
      | Some rs \<Rightarrow>
          (case key of
             JStr k \<Rightarrow> Inr (db\<lparr>stores := (stores db)(storeName \<mapsto> store_delete k rs)\<rparr>)
           | _ \<Rightarrow> Inl DataError))"

section \<open>Serialisation\<close>

text \<open>
  \<open>JSON.stringify\<close>, for integers below the size where JavaScript switches to
  exponent notation. A value with no serialisation (\<open>undefined\<close>) is \<open>None\<close>: an
  object leaves such a property out, an array writes \<open>null\<close> in its place.
\<close>

definition digit_char :: "nat \<Rightarrow> char" where
  "digit_char d = char_of (48 + d)"

fun show_nat :: "nat \<Rightarrow> string" where
  "show_nat n =
     (if n < 10 then [digit_char n] else show_nat (n div 10) @ [digit_char (n mod 10)])"

declare show_nat.simps [simp del]

definition show_int :: "int \<Rightarrow> string" where
  "show_int i = (if i < 0 then CHR ''-'' # show_nat (nat (- i)) else show_nat (nat i))"

definition hex_char :: "nat \<Rightarrow> char" where
  "hex_char d = (if d < 10 then char_of (48 + d) else char_of (87 + d))"

definition quote_char :: "char \<Rightarrow> string" where
  "quote_char c =
     (if c = CHR 0x22 then [CHR 0x5C, CHR 0x22]
      else if c = CHR 0x5C then [CHR 0x5C, CHR 0x5C]
      else if c = CHR 0x08 then [CHR 0x5C, CHR ''b'']
      else if c = CHR 0x0C then [CHR 0x5C, CHR ''f'']
      else if c = CHR 0x0A then [CHR 0x5C, CHR ''n'']
      else if c = CHR 0x0D then [CHR 0x5C, CHR ''r'']
      else if c = CHR 0x09 then [CHR 0x5C, CHR ''t'']
      else if of_char c < (32::nat)
        then [CHR 0x5C, CHR ''u'', CHR ''0'', CHR ''0'',
              hex_char (of_char c div 16), hex_char (of_char c mod 16)]
      else [c])"

definition quote :: "string \<Rightarrow> string" where
  "quote s = CHR 0x22 # concat (map quote_char s) @ [CHR 0x22]"

fun join :: "string list \<Rightarrow> string" where
  "join [] = []"
| "join [s] = s"
| "join (s # t # ss) = s @ CHR '','' # join (t # ss)"

fun JSON_stringify :: "jsval \<Rightarrow> string option" where
  "JSON_stringify JUndefined = None"
| "JSON_stringify JNull = Some ''null''"
| "JSON_stringify (JBool b) = Some (if b then ''true'' else ''false'')"
| "JSON_stringify (JNum n) = Some (show_int n)"
| "JSON_stringify (JStr s) = Some (quote s)"
| "JSON_stringify (JArr xs) =
     Some (CHR ''['' #
           join (map (\<lambda>x. case JSON_stringify x of None \<Rightarrow> ''null'' | Some s \<Rightarrow> s) xs)
           @ '']'')"
| "JSON_stringify (JObj kvs) =
     Some (CHR ''{'' #
           join (concat (map (\<lambda>(k, v). case JSON_stringify v of
                                          None \<Rightarrow> []
                                        | Some s \<Rightarrow> [quote k @ CHR '':'' # s]) kvs))
           @ ''}'')"

text \<open>
  What \<open>JSON.parse\<close> returns on the text \<open>JSON.stringify\<close> wrote for a value: the
  value without its \<open>undefined\<close> properties, and with \<open>null\<close> for an \<open>undefined\<close>
  array element.
\<close>

fun reparse :: "jsval \<Rightarrow> jsval" where
  "reparse (JArr xs) = JArr (map (\<lambda>x. if x = JUndefined then JNull else reparse x) xs)"
| "reparse (JObj kvs) =
     JObj (concat (map (\<lambda>(k, v). if v = JUndefined then [] else [(k, reparse v)]) kvs))"
| "reparse v = v"

section \<open>Conflict detection\<close>

text \<open>
  \<open>detectConflicts(storeName, remoteData)\<close> reads the local collection and runs two
  loops. \<open>remoteItemConflicts\<close> is the body of the first (one remote item against the
  local data), \<open>localItemConflicts\<close> the body of the second (one local item against
  the remote data); each gives the records that iteration pushes.
\<close>

definition mkConflict :: "string \<Rightarrow> entity option \<Rightarrow> entity option \<Rightarrow> conflict" where
  "mkConflict t l r = \<lparr> c_type = t, c_local = l, c_remote = r \<rparr>"

definition remoteItemConflicts :: "entity list \<Rightarrow> entity \<Rightarrow> conflict list" where
  "remoteItemConflicts localData remoteItem =
     (case find (\<lambda>item. strict_eq (getField item ''id'') (getField remoteItem ''id''))
             localData of
        Some localItem \<Rightarrow>
          if truthy (getField remoteItem ''lastModified'')
             \<and> truthy (getField localItem ''lastModified'')
          then
            if js_gt (getField remoteItem ''lastModified'') (getField localItem ''lastModified'')
            then [mkConflict ''server_newer'' (Some localItem) (Some remoteItem)]
            else if js_lt (getField remoteItem ''lastModified'')
                          (getField localItem ''lastModified'')
            then [mkConflict ''local_newer'' (Some localItem) (Some remoteItem)]
            else if JSON_stringify (JObj remoteItem) \<noteq> JSON_stringify (JObj localItem)
            then [mkConflict ''content_conflict'' (Some localItem) (Some remoteItem)]
            else []
          else
            if JSON_stringify (JObj remoteItem) \<noteq> JSON_stringify (JObj localItem)
            then [mkConflict ''content_conflict'' (Some localItem) (Some remoteItem)]
            else []
      | None \<Rightarrow> [mkConflict ''server_only'' None (Some remoteItem)])"

definition localItemConflicts :: "entity list \<Rightarrow> entity \<Rightarrow> conflict list" where
  "localItemConflicts remoteData localItem =
     (case find (\<lambda>item. strict_eq (getField item ''id'') (getField localItem ''id''))
             remoteData of
        Some remoteItem \<Rightarrow> []
      | None \<Rightarrow> [mkConflict ''local_only'' (Some localItem) None])"

definition detectConflicts :: "string \<Rightarrow> entity list \<Rightarrow> golfdb \<Rightarrow> error + conflict list" where
  "detectConflicts storeName remoteData db =
     (case getAll storeName db of
        Inl e \<Rightarrow> Inl e
      | Inr localData \<Rightarrow>
          Inr (concat (map (remoteItemConflicts localData) remoteData)
               @ concat (map (localItemConflicts remoteData) localData)))"

text \<open>
  The classification as the specification words it, a case analysis on one local and
  one remote version, each present or absent, to compare \<open>detectConflicts\<close> with. The
  timestamp of a version is its \<open>lastModified\<close>, a number when it is there.
\<close>

definition timestamp :: "entity \<Rightarrow> int option" where
  "timestamp e =
     (case getField e ''lastModified'' of
        JNum n \<Rightarrow> Some n
      | _ \<Rightarrow> None)"

definition spec_content :: "entity \<Rightarrow> entity \<Rightarrow> conflict list" where
  "spec_content l r =
     (if JSON_stringify (JObj r) \<noteq> JSON_stringify (JObj l)
      then [mkConflict ''content_conflict'' (Some l) (Some r)] else [])"

fun spec_detect :: "entity option \<Rightarrow> entity option \<Rightarrow> conflict list" where
  "spec_detect None None = []"
| "spec_detect None (Some r) = [mkConflict ''server_only'' None (Some r)]"
| "spec_detect (Some l) None = [mkConflict ''local_only'' (Some l) None]"
| "spec_detect (Some l) (Some r) =
     (case (timestamp l, timestamp r) of
        (Some tloc, Some trem) \<Rightarrow>
          if trem > tloc then [mkConflict ''server_newer'' (Some l) (Some r)]
          else if tloc > trem then [mkConflict ''local_newer'' (Some l) (Some r)]
          else spec_content l r
      | _ \<Rightarrow> spec_content l r)"

text \<open>
  \<open>lastModified?: number\<close>: absent (or \<open>null\<close>), or a number. \<open>stamped\<close> holds of an
  entity whose \<open>lastModified\<close> is of that type and is not the number 0.
\<close>

definition declaredTimestamp :: "entity \<Rightarrow> bool" where
  "declaredTimestamp e =
     (case getField e ''lastModified'' of
        JUndefined \<Rightarrow> True
      | JNull \<Rightarrow> True
      | JNum n \<Rightarrow> True
      | _ \<Rightarrow> False)"

definition stamped :: "entity \<Rightarrow> bool" where
  "stamped e = (declaredTimestamp e \<and> getField e ''lastModified'' \<noteq> JNum 0)"

text \<open>The counterpart of an item in the other list: the first entity with its id.\<close>

definition counterpart :: "entity list \<Rightarrow> entity \<Rightarrow> entity option" where
  "counterpart items x =
     find (\<lambda>item. strict_eq (getField item ''id'') (getField x ''id'')) items"

section \<open>Conflict resolution\<close>

text \<open>
  A resolution carries a strategy and, for \<open>merge\<close>, the rules: an object from field
  name to rule name (\<open>None\<close> when the caller gave no rules). \<open>member x f\<close> is
  \<open>x[f]\<close> in \<open>mergeData\<close>, for \<open>x\<close> an entity or \<open>null\<close>.
\<close>

record resolution =
  strategy :: string
  mergeRules :: "(string \<times> string) list option"

text \<open>
  \<open>mergeData\<close> reads and writes properties under names the caller chose, so the name
  can be \<open>__proto__\<close>. A read \<open>x[field]\<close> gives a value, or the object
  \<open>Object.prototype\<close>: that is what \<open>__proto__\<close> reads as on an object that has no
  property of that name itself. (Entities come out of IndexedDB or \<open>JSON.parse\<close>; their
  prototype is \<open>Object.prototype\<close>, and \<open>__proto__\<close> can be a property of their own.)
  The other properties an entity inherits (\<open>constructor\<close>, \<open>toString\<close>, ...) are
  functions, which are no values of the model: such a name reads as \<open>undefined\<close>
  here unless the entity has a property of its own under it.
\<close>

datatype ref = Value jsval | ObjectPrototype

definition readField :: "entity \<Rightarrow> string \<Rightarrow> ref" where
  "readField e f =
     (case map_of e f of
        Some v \<Rightarrow> Value v
      | None \<Rightarrow> if f = ''__proto__'' then ObjectPrototype else Value JUndefined)"

definition member :: "entity option \<Rightarrow> string \<Rightarrow> error + ref" where
  "member x f = (case x of None \<Rightarrow> Inl TypeError | Some e \<Rightarrow> Inr (readField e f))"

text \<open>
  The object \<open>merged\<close> that \<open>mergeData\<close> builds and returns: its own properties in
  order, and its prototype, \<open>Object.prototype\<close> at first.
\<close>

record merged =
  own :: "(string \<times> ref) list"
  proto :: ref

text \<open>
  The setter behind \<open>__proto__\<close> on \<open>Object.prototype\<close>: an object or \<open>null\<close>
  becomes the prototype, any other value is ignored.
\<close>

fun setPrototype :: "ref \<Rightarrow> merged \<Rightarrow> merged" where
  "setPrototype ObjectPrototype m = m\<lparr>proto := ObjectPrototype\<rparr>"
| "setPrototype (Value (JObj p)) m = m\<lparr>proto := Value (JObj p)\<rparr>"
| "setPrototype (Value (JArr xs)) m = m\<lparr>proto := Value (JArr xs)\<rparr>"
| "setPrototype (Value JNull) m = m\<lparr>proto := Value JNull\<rparr>"
| "setPrototype v m = m"

text \<open>
  \<open>merged[field] = v\<close>. A property of its own takes the value, and any name but
  \<open>__proto__\<close> becomes one. For \<open>__proto__\<close> that is not \<open>merged\<close>'s own the
  assignment looks up the prototype chain: a prototype with a property \<open>__proto__\<close>
  of its own, or no prototype at all, makes it an own property of \<open>merged\<close> too;
  otherwise the chain ends in the setter of \<open>Object.prototype\<close>.
\<close>

definition assign :: "string \<Rightarrow> ref \<Rightarrow> merged \<Rightarrow> merged" where
  "assign field v m =
     (if field \<in> set (map fst (own m)) \<or> field \<noteq> ''__proto__''
      then m\<lparr>own := setField field v (own m)\<rparr>
      else (case proto m of
              Value (JObj p) \<Rightarrow>
                if ''__proto__'' \<in> set (map fst p)
                then m\<lparr>own := setField field v (own m)\<rparr>
                else setPrototype v m
            | Value JNull \<Rightarrow> m\<lparr>own := setField field v (own m)\<rparr>
            | _ \<Rightarrow> setPrototype v m))"

text \<open>
  \<open>[...new Set(xs)]\<close>: the elements in order of first occurrence. A Set compares
  primitives by value and objects by reference, as \<open>strict_eq\<close> does here.
\<close>

definition uniq :: "jsval list \<Rightarrow> jsval list" where
  "uniq xs = foldl (\<lambda>acc x. if list_ex (strict_eq x) acc then acc else acc @ [x]) [] xs"

text \<open>One iteration of the loop of \<open>mergeData\<close> over \<open>Object.entries(mergeRules)\<close>.\<close>

definition applyRule ::
  "entity option \<Rightarrow> entity option \<Rightarrow> merged \<Rightarrow> string \<times> string \<Rightarrow> error + merged" where
  "applyRule local remote m fr =
     (let field = fst fr; rule = snd fr in
      if rule = ''use_remote'' then
        (case member remote field of
           Inl e \<Rightarrow> Inl e
         | Inr v \<Rightarrow> Inr (assign field v m))
      else if rule = ''use_local'' then Inr m
      else if rule = ''combine'' then
        (case member local field of
           Inl e \<Rightarrow> Inl e
         | Inr (Value (JArr xs)) \<Rightarrow>
             (case member remote field of
                Inl e \<Rightarrow> Inl e
              | Inr (Value (JArr ys)) \<Rightarrow> Inr (assign field (Value (JArr (uniq (xs @ ys)))) m)
              | Inr rv \<Rightarrow> Inr m)
         | Inr lv \<Rightarrow> Inr m)
      else if rule = ''latest'' then
        (case member remote field of
           Inl e \<Rightarrow> Inl e
         | Inr v \<Rightarrow> Inr (assign field v m))
      else Inr m)"

fun applyRules ::
  "entity option \<Rightarrow> entity option \<Rightarrow> (string \<times> string) list \<Rightarrow> merged \<Rightarrow> error + merged" where
  "applyRules local remote [] m = Inr m"
| "applyRules local remote (fr # rules) m =
     (case applyRule local remote m fr of
        Inl e \<Rightarrow> Inl e
      | Inr m' \<Rightarrow> applyRules local remote rules m')"

text \<open>\<open>Object.entries(mergeRules || {})\<close>.\<close>

definition entries :: "(string \<times> string) list option \<Rightarrow> (string \<times> string) list" where
  "entries rules = (case rules of None \<Rightarrow> [] | Some rs \<Rightarrow> rs)"

text \<open>\<open>{ ...local }\<close>: a new object with the properties of \<open>local\<close>.\<close>

definition copyOf :: "entity option \<Rightarrow> merged" where
  "copyOf local = \<lparr> own = map (\<lambda>(k, v). (k, Value v)) (spread local), proto = ObjectPrototype \<rparr>"

definition mergeData ::
  "entity option \<Rightarrow> entity option \<Rightarrow> (string \<times> string) list option \<Rightarrow> error + merged" where
  "mergeData local remote rules = applyRules local remote (entries rules) (copyOf local)"

text \<open>
  A read \<open>merged[field]\<close> by whoever gets the result: the own property, or what the
  prototype chain gives. An array as prototype has its elements and \<open>length\<close>; the
  getter \<open>__proto__\<close> of \<open>Object.prototype\<close> returns the prototype of \<open>merged\<close>.
\<close>

definition arrayProp :: "jsval list \<Rightarrow> string \<Rightarrow> jsval option" where
  "arrayProp xs f =
     (if f = ''length'' then Some (JNum (int (length xs)))
      else map_option (\<lambda>i. xs ! i) (find (\<lambda>i. show_nat i = f) [0..<length xs]))"

definition readMerged :: "merged \<Rightarrow> string \<Rightarrow> ref" where
  "readMerged m f =
     (case map_of (own m) f of
        Some v \<Rightarrow> v
      | None \<Rightarrow>
          (case proto m of
             ObjectPrototype \<Rightarrow> if f = ''__proto__'' then ObjectPrototype else Value JUndefined
           | Value (JObj p) \<Rightarrow>
               (case map_of p f of
                  Some v \<Rightarrow> Value v
                | None \<Rightarrow> if f = ''__proto__'' then Value (JObj p) else Value JUndefined)
           | Value (JArr xs) \<Rightarrow>
               (case arrayProp xs f of
                  Some v \<Rightarrow> Value v
                | None \<Rightarrow> if f = ''__proto__'' then Value (JArr xs) else Value JUndefined)
           | Value v \<Rightarrow> Value JUndefined))"

text \<open>
  What \<open>put\<close> stores of an object literal: the structured clone of its properties.
  \<open>Object.prototype\<close> has no enumerable property, so its clone is the empty object.
\<close>

definition cloneOf :: "(string \<times> ref) list \<Rightarrow> entity" where
  "cloneOf kvs = map (\<lambda>(k, v). (k, case v of Value x \<Rightarrow> x | ObjectPrototype \<Rightarrow> JObj [])) kvs"

text \<open>
  \<open>Date.now()\<close> is an input: \<open>storeConflict\<close> reads the clock twice (\<open>t1\<close> for the
  id, \<open>t2\<close> for the timestamp). Its \<open>catch\<close> swallows a failed \<open>add\<close>.
\<close>

definition storeConflict :: "string \<Rightarrow> conflict \<Rightarrow> nat \<Rightarrow> nat \<Rightarrow> golfdb \<Rightarrow> golfdb" where
  "storeConflict storeName c t1 t2 db =
     (let conflictData = \<lparr> cd_id = ''conflict-'' @ show_nat t1, cd_storeName = storeName,
                            cd_conflict = c, cd_timestamp = t2 \<rparr>
      in case store_add (cd_id conflictData) conflictData (conflicts db) of
           Inl e \<Rightarrow> db
         | Inr rs \<Rightarrow> db\<lparr>conflicts := rs\<rparr>)"

text \<open>
  \<open>resolveConflict\<close>: \<open>use_local\<close> and \<open>merge\<close> read the clock once (\<open>t1\<close>),
  \<open>manual\<close> passes both readings on to \<open>storeConflict\<close>. A strategy that matches no
  case does nothing.
\<close>

definition resolveConflict ::
  "string \<Rightarrow> conflict \<Rightarrow> resolution \<Rightarrow> nat \<Rightarrow> nat \<Rightarrow> golfdb \<Rightarrow> error + golfdb" where
  "resolveConflict storeName c res t1 t2 db =
     (if strategy res = ''use_local'' then
        put storeName
          (setField ''synced'' (JBool False)
             (setField ''lastModified'' (JNum (int t1)) (spread (c_local c)))) db
      else if strategy res = ''use_remote'' then
        put storeName (setField ''synced'' (JBool True) (spread (c_remote c))) db
      else if strategy res = ''merge'' then
        (case mergeData (c_local c) (c_remote c) (mergeRules res) of
           Inl e \<Rightarrow> Inl e
         | Inr merged \<Rightarrow>
             put storeName
               (cloneOf
                  (setField ''synced'' (Value (JBool False))
                     (setField ''lastModified'' (Value (JNum (int t1))) (own merged)))) db)
      else if strategy res = ''manual'' then Inr (storeConflict storeName c t1 t2 db)
      else Inr db)"

definition getPendingConflicts :: "golfdb \<Rightarrow> conflictData list" where
  "getPendingConflicts db = store_getAll (conflicts db)"

definition resolveStoredConflict ::
  "string \<Rightarrow> resolution \<Rightarrow> nat \<Rightarrow> nat \<Rightarrow> golfdb \<Rightarrow> error + golfdb" where
  "resolveStoredConflict conflictId res t1 t2 db =
     (case store_get conflictId (conflicts db) of
        None \<Rightarrow> Inr db
      | Some cd \<Rightarrow>
          (case resolveConflict (cd_storeName cd) (cd_conflict cd) res t1 t2 db of
             Inl e \<Rightarrow> Inl e
           | Inr db' \<Rightarrow> Inr (db'\<lparr>conflicts := store_delete conflictId (conflicts db')\<rparr>)))"

section \<open>The synchronisation queue\<close>

text \<open>
  \<open>addToSyncQueue\<close> reads the clock for the id (\<open>t1\<close>) and for the timestamp
  (\<open>t2\<close>); \<open>rnd\<close> is the text of \<open>Math.random()\<close>.
\<close>

definition addToSyncQueue ::
  "string \<Rightarrow> string \<Rightarrow> jsval \<Rightarrow> nat \<Rightarrow> string \<Rightarrow> nat \<Rightarrow> golfdb \<Rightarrow> golfdb" where
  "addToSyncQueue storeName operation data t1 rnd t2 db =
     (let syncItem = \<lparr> q_id = ''sync-'' @ show_nat t1 @ ''-'' @ rnd,
                        q_storeName = storeName, q_operation = operation, q_data = data,
                        q_timestamp = t2, q_retries = 0, q_status = ''pending'' \<rparr>
      in case store_add (q_id syncItem) syncItem (syncQueue db) of
           Inl e \<Rightarrow> db
         | Inr rs \<Rightarrow> db\<lparr>syncQueue := rs\<rparr>)"

definition getSyncQueue :: "golfdb \<Rightarrow> syncItem list" where
  "getSyncQueue db = store_getAll (syncQueue db)"

definition markSyncItemComplete :: "string \<Rightarrow> golfdb \<Rightarrow> golfdb" where
  "markSyncItemComplete syncId db =
     (case store_get syncId (syncQueue db) of
        None \<Rightarrow> db
      | Some item \<Rightarrow>
          (let item' = item\<lparr>q_status := ''completed''\<rparr>
           in db\<lparr>syncQueue := store_put (q_id item') item' (syncQueue db)\<rparr>))"

definition removeFromSyncQueue :: "string \<Rightarrow> golfdb \<Rightarrow> golfdb" where
  "removeFromSyncQueue syncId db = db\<lparr>syncQueue := store_delete syncId (syncQueue db)\<rparr>"

definition retrySyncItem :: "string \<Rightarrow> golfdb \<Rightarrow> golfdb" where
  "retrySyncItem syncId db =
     (case store_get syncId (syncQueue db) of
        None \<Rightarrow> db
      | Some item \<Rightarrow>
          (let item' = item\<lparr>q_retries := q_retries item + 1, q_status := ''pending''\<rparr>
           in db\<lparr>syncQueue := store_put (q_id item') item' (syncQueue db)\<rparr>))"

text \<open>
  What the store with key path \<open>id\<close> keeps true of the queue: the records are in
  ascending order of key, one per key, each under its own id.
\<close>

definition wf_queue :: "syncItem objectStore \<Rightarrow> bool" where
  "wf_queue rs =
     (sorted (map fst rs) \<and> distinct (map fst rs) \<and> (\<forall>r \<in> set rs. q_id (snd r) = fst r))"

section \<open>The hook: synchronisation pass, export, import, clear\<close>

text \<open>
  The state of \<open>useGolfData\<close> that these operations read and write: the database
  handle (\<open>null\<close> until \<open>init\<close> has run) with the content of the database behind it,
  the three lists the hook keeps of the collections, and the flags.
\<close>

datatype syncStatus = S_idle | S_syncing | S_error

record hook =
  db_handle :: "golfdb option"
  courses :: "jsval list"
  rounds :: "jsval list"
  holeScores :: "jsval list"
  isOnline :: bool
  syncStatus :: syncStatus
  pendingConflicts :: "conflictData list"

text \<open>
  \<open>processSyncItem\<close> is where an item is pushed to the remote endpoint. Its body in
  the source is a \<open>switch\<close> over the operation with three empty cases, so it returns
  without an exception. The pass is modelled for any processor \<open>proc\<close> (\<open>Inl\<close>: the
  push threw), of which the one of the source is an instance.
\<close>

definition processSyncItem :: "syncItem \<Rightarrow> error + unit" where
  "processSyncItem item = Inr ()"

text \<open>
  The loop of \<open>performSync\<close> over the queue it read at the start: \<open>try\<close> the push and
  \<open>markSyncItemComplete\<close>, on an exception \<open>retrySyncItem\<close>, then go on with the next
  item. Neither of the two queue operations can fail on the queue store, so the outer
  \<open>catch\<close> (status \<open>error\<close>) is never entered from the loop.
\<close>

fun syncLoop :: "(syncItem \<Rightarrow> error + unit) \<Rightarrow> syncItem list \<Rightarrow> golfdb \<Rightarrow> golfdb" where
  "syncLoop proc [] d = d"
| "syncLoop proc (item # items) d =
     syncLoop proc items
       (case proc item of
          Inr u \<Rightarrow> markSyncItemComplete (q_id item) d
        | Inl e \<Rightarrow> retrySyncItem (q_id item) d)"

text \<open>
  What a pass is to make of one item, to compare the loop with: \<open>completed\<close> when the
  push succeeded, one more retry and \<open>pending\<close> when it threw.
\<close>

definition attempt :: "(syncItem \<Rightarrow> error + unit) \<Rightarrow> syncItem \<Rightarrow> syncItem" where
  "attempt proc item =
     (case proc item of
        Inr u \<Rightarrow> item\<lparr>q_status := ''completed''\<rparr>
      | Inl e \<Rightarrow> item\<lparr>q_retries := q_retries item + 1, q_status := ''pending''\<rparr>)"

definition checkForConflicts :: "hook \<Rightarrow> hook" where
  "checkForConflicts s =
     (case db_handle s of
        None \<Rightarrow> s
      | Some d \<Rightarrow> s\<lparr>pendingConflicts := getPendingConflicts d\<rparr>)"

text \<open>
  One call of \<open>performSync\<close>, from the guard to the last status it sets. The guard is
  all that could turn a trigger away; it is evaluated on the state the call finds, which
  is in status \<open>syncing\<close> when an earlier pass has started and not finished.
\<close>

definition performSync :: "(syncItem \<Rightarrow> error + unit) \<Rightarrow> hook \<Rightarrow> hook" where
  "performSync proc s =
     (case db_handle s of
        None \<Rightarrow> s
      | Some d \<Rightarrow>
          if \<not> isOnline s then s
          else
            (checkForConflicts
               (s\<lparr>syncStatus := S_syncing,
                   db_handle := Some (syncLoop proc (getSyncQueue d) d)\<rparr>))
            \<lparr>syncStatus := S_idle\<rparr>)"

text \<open>
  \<open>x.name\<close> on a value that came out of \<open>JSON.parse\<close>, for the names \<open>importData\<close>
  reads (none is an array index or \<open>length\<close>): a \<open>TypeError\<close> on \<open>null\<close>, the own
  property on an object, \<open>undefined\<close> on anything else.
\<close>

fun propOf :: "jsval \<Rightarrow> string \<Rightarrow> error + jsval" where
  "propOf JUndefined k = Inl TypeError"
| "propOf JNull k = Inl TypeError"
| "propOf (JObj kvs) k = Inr (getField kvs k)"
| "propOf v k = Inr JUndefined"

fun isNumber :: "jsval \<Rightarrow> bool" where
  "isNumber (JNum n) = True"
| "isNumber v = False"

text \<open>\<open>typeof v === 'object'\<close>.\<close>

fun isObjectType :: "jsval \<Rightarrow> bool" where
  "isObjectType JNull = True"
| "isObjectType (JArr xs) = True"
| "isObjectType (JObj kvs) = True"
| "isObjectType v = False"

definition exportData :: "hook \<Rightarrow> string \<Rightarrow> jsval" where
  "exportData s exportDate =
     JObj [(''courses'', JArr (courses s)), (''rounds'', JArr (rounds s)),
           (''holeScores'', JArr (holeScores s)), (''exportDate'', JStr exportDate)]"

definition checkCourse :: "jsval \<Rightarrow> error option" where
  "checkCourse course =
     (case propOf course ''id'' of
        Inl e \<Rightarrow> Some e
      | Inr i \<Rightarrow>
          if \<not> truthy i
          then Some (Error ''Invalid course data. Each course must have an id and name.'')
          else (case propOf course ''name'' of
                  Inl e \<Rightarrow> Some e
                | Inr n \<Rightarrow>
                    if \<not> truthy n
                    then Some (Error ''Invalid course data. Each course must have an id and name.'')
                    else None))"

definition checkRound :: "jsval \<Rightarrow> error option" where
  "checkRound round =
     (case propOf round ''id'' of
        Inl e \<Rightarrow> Some e
      | Inr i \<Rightarrow>
          if \<not> truthy i
          then Some (Error ''Invalid round data. Each round must have id, courseId, and totalScore.'')
          else (case propOf round ''courseId'' of
                  Inl e \<Rightarrow> Some e
                | Inr c \<Rightarrow>
                    if \<not> truthy c
                    then Some (Error ''Invalid round data. Each round must have id, courseId, and totalScore.'')
                    else (case propOf round ''totalScore'' of
                            Inl e \<Rightarrow> Some e
                          | Inr t \<Rightarrow>
                              if \<not> isNumber t
                              then Some (Error ''Invalid round data. Each round must have id, courseId, and totalScore.'')
                              else None)))"

definition checkHole :: "jsval \<Rightarrow> error option" where
  "checkHole hole =
     (case propOf hole ''id'' of
        Inl e \<Rightarrow> Some e
      | Inr i \<Rightarrow>
          if \<not> truthy i
          then Some (Error ''Invalid hole score data. Each hole must have id, roundId, and score.'')
          else (case propOf hole ''roundId'' of
                  Inl e \<Rightarrow> Some e
                | Inr r \<Rightarrow>
                    if \<not> truthy r
                    then Some (Error ''Invalid hole score data. Each hole must have id, roundId, and score.'')
                    else (case propOf hole ''score'' of
                            Inl e \<Rightarrow> Some e
                          | Inr t \<Rightarrow>
                              if \<not> isNumber t
                              then Some (Error ''Invalid hole score data. Each hole must have id, roundId, and score.'')
                              else None)))"

text \<open>A validation loop: the first item that fails throws.\<close>

fun checkAll :: "(jsval \<Rightarrow> error option) \<Rightarrow> jsval list \<Rightarrow> error option" where
  "checkAll chk [] = None"
| "checkAll chk (x # xs) = (case chk x of Some e \<Rightarrow> Some e | None \<Rightarrow> checkAll chk xs)"

text \<open>
  A loop \<open>for (const x of xs) await db!.put(storeName, x)\<close>: it stops at the first
  exception and keeps what it has written. A value that is not an object has no key.
\<close>

fun putAll :: "string \<Rightarrow> jsval list \<Rightarrow> golfdb option \<Rightarrow> error option \<times> golfdb option" where
  "putAll storeName [] d = (None, d)"
| "putAll storeName (x # xs) d =
     (case d of
        None \<Rightarrow> (Some TypeError, None)
      | Some g \<Rightarrow>
          (case x of
             JObj e \<Rightarrow>
               (case put storeName e g of
                  Inl err \<Rightarrow> (Some err, Some g)
                | Inr g' \<Rightarrow> putAll storeName xs (Some g'))
           | _ \<Rightarrow> (Some DataError, Some g)))"

text \<open>
  \<open>importData\<close> takes what \<open>JSON.parse\<close> made of the file: \<open>None\<close> when it threw a
  \<open>SyntaxError\<close>. It returns the exception it ends with, if any, and the state.
\<close>

definition importData :: "jsval option \<Rightarrow> hook \<Rightarrow> error option \<times> hook" where
  "importData parsed s =
     (case parsed of
        None \<Rightarrow> (Some (Error ''Invalid JSON format. Please check your backup file.''), s)
      | Some data \<Rightarrow>
          if \<not> truthy data \<or> \<not> isObjectType data
          then (Some (Error ''Invalid data format. Expected a JSON object.''), s)
          else
          (case propOf data ''courses'' of
             Inl e \<Rightarrow> (Some e, s)
           | Inr (JArr cs) \<Rightarrow>
              (case propOf data ''rounds'' of
                 Inl e \<Rightarrow> (Some e, s)
               | Inr (JArr rs) \<Rightarrow>
                  (case propOf data ''holeScores'' of
                     Inl e \<Rightarrow> (Some e, s)
                   | Inr (JArr hs) \<Rightarrow>
                      (case checkAll checkCourse cs of
                         Some e \<Rightarrow> (Some e, s)
                       | None \<Rightarrow>
                      (case checkAll checkRound rs of
                         Some e \<Rightarrow> (Some e, s)
                       | None \<Rightarrow>
                      (case checkAll checkHole hs of
                         Some e \<Rightarrow> (Some e, s)
                       | None \<Rightarrow>
                      (case putAll ''courses'' cs (db_handle s) of
                         (Some e, d1) \<Rightarrow> (Some e, s\<lparr>db_handle := d1\<rparr>)
                       | (None, d1) \<Rightarrow>
                      (case putAll ''rounds'' rs d1 of
                         (Some e, d2) \<Rightarrow> (Some e, s\<lparr>db_handle := d2\<rparr>)
                       | (None, d2) \<Rightarrow>
                      (case putAll ''holeScores'' hs d2 of
                         (Some e, d3) \<Rightarrow> (Some e, s\<lparr>db_handle := d3\<rparr>)
                       | (None, d3) \<Rightarrow>
                           (None, s\<lparr>db_handle := d3, courses := cs, rounds := rs,
                                     holeScores := hs\<rparr>)))))))
                   | Inr v \<Rightarrow> (Some (Error ''Invalid hole scores data. Expected an array.''), s))
               | Inr v \<Rightarrow> (Some (Error ''Invalid rounds data. Expected an array.''), s))
           | Inr v \<Rightarrow> (Some (Error ''Invalid courses data. Expected an array.''), s)))"

text \<open>A loop \<open>for (const x of all) await db!.delete(storeName, x.id)\<close>.\<close>

fun deleteAll :: "string \<Rightarrow> entity list \<Rightarrow> golfdb \<Rightarrow> error option \<times> golfdb" where
  "deleteAll storeName [] d = (None, d)"
| "deleteAll storeName (x # xs) d =
     (case delete storeName (getField x ''id'') d of
        Inl err \<Rightarrow> (Some err, d)
      | Inr d' \<Rightarrow> deleteAll storeName xs d')"

definition clearAllData :: "hook \<Rightarrow> error option \<times> hook" where
  "clearAllData s =
     (case db_handle s of
        None \<Rightarrow> (Some TypeError, s)
      | Some d \<Rightarrow>
     (case getAll ''courses'' d of
        Inl e \<Rightarrow> (Some e, s)
      | Inr allCourses \<Rightarrow>
     (case getAll ''rounds'' d of
        Inl e \<Rightarrow> (Some e, s)
      | Inr allRounds \<Rightarrow>
     (case getAll ''holeScores'' d of
        Inl e \<Rightarrow> (Some e, s)
      | Inr allHoles \<Rightarrow>
     (case deleteAll ''courses'' allCourses d of
        (Some e, d1) \<Rightarrow> (Some e, s\<lparr>db_handle := Some d1\<rparr>)
      | (None, d1) \<Rightarrow>
     (case deleteAll ''rounds'' allRounds d1 of
        (Some e, d2) \<Rightarrow> (Some e, s\<lparr>db_handle := Some d2\<rparr>)
      | (None, d2) \<Rightarrow>
     (case deleteAll ''holeScores'' allHoles d2 of
        (Some e, d3) \<Rightarrow> (Some e, s\<lparr>db_handle := Some d3\<rparr>)
      | (None, d3) \<Rightarrow>
          (None, s\<lparr>db_handle := Some d3, courses := [], rounds := [],
                    holeScores := []\<rparr>))))))))"

section \<open>The round trip of a backup\<close>

text \<open>
  Export, clear, import what was exported. The file holds \<open>JSON.stringify\<close> of the
  exported object, and \<open>JSON.parse\<close> of that text is \<open>reparse\<close> of the object. A
  failed clear ends the sequence.
\<close>

definition roundTrip :: "hook \<Rightarrow> string \<Rightarrow> error option \<times> hook" where
  "roundTrip s exportDate =
     (let file = reparse (exportData s exportDate)
      in case clearAllData s of
           (Some e, s1) \<Rightarrow> (Some e, s1)
         | (None, s1) \<Rightarrow> importData (Some file) s1)"

text \<open>
  A collection is keyed when every record stands under the key its key path gives, as
  the store keeps it. The three predicates say what \<open>importData\<close> demands of a course,
  a round and a hole score. \<open>ids\<close> is the set of the ids of a list of entities.
\<close>

definition keyed :: "string \<Rightarrow> entity objectStore \<Rightarrow> bool" where
  "keyed c q = (\<forall>r \<in> set q. key_of c (snd r) = Some (fst r))"

definition importable_course :: "entity \<Rightarrow> bool" where
  "importable_course e = (truthy (getField e ''id'') \<and> truthy (getField e ''name''))"

definition importable_round :: "entity \<Rightarrow> bool" where
  "importable_round e =
     (truthy (getField e ''id'') \<and> truthy (getField e ''courseId'')
      \<and> isNumber (getField e ''totalScore''))"

definition importable_hole :: "entity \<Rightarrow> bool" where
  "importable_hole e =
     (truthy (getField e ''id'') \<and> truthy (getField e ''roundId'')
      \<and> isNumber (getField e ''score''))"

definition ids :: "entity list \<Rightarrow> jsval set" where
  "ids es = (\<lambda>e. getField e ''id'') ` set es"

text \<open>
  The properties of an entity as they come back from the file, and the whole file for
  three lists of entities.
\<close>

definition storedFields :: "entity \<Rightarrow> entity" where
  "storedFields e = concat (map (\<lambda>(k, v). if v = JUndefined then [] else [(k, reparse v)]) e)"

definition backup :: "entity list \<Rightarrow> entity list \<Rightarrow> entity list \<Rightarrow> string \<Rightarrow> jsval" where
  "backup ec er eh date =
     JObj [(''courses'', JArr (map (\<lambda>e. JObj (storedFields e)) ec)),
           (''rounds'', JArr (map (\<lambda>e. JObj (storedFields e)) er)),
           (''holeScores'', JArr (map (\<lambda>e. JObj (storedFields e)) eh)),
           (''exportDate'', JStr date)]"

section \<open>Example data\<close>

text \<open>Two versions of one course, and a rule set, on which the theorems are run.\<close>

definition ex_local :: entity where
  "ex_local = [(''id'', JStr ''course-1''), (''par'', JNum 72),
               (''tags'', JArr [JStr ''links'']), (''name'', JStr ''Old Course''),
               (''lastModified'', JNum 100)]"

definition ex_remote :: entity where
  "ex_remote = [(''id'', JStr ''course-1''), (''par'', JNum 71),
                (''tags'', JStr ''parkland''), (''name'', JStr ''New Course''),
                (''lastModified'', JNum 200)]"

definition ex_rules :: "(string \<times> string) list option" where
  "ex_rules = Some [(''tags'', ''combine''), (''name'', ''latest'')]"

text \<open>The database with \<open>ex_local\<close> as its only course.\<close>

definition ex_db :: golfdb where
  "ex_db = init\<lparr>stores := (stores init)(''courses'' \<mapsto> [(''course-1'', ex_local)])\<rparr>"

text \<open>A course whose local timestamp is 0 and whose remote timestamp is 5.\<close>

definition zero_local :: entity where
  "zero_local = [(''id'', JStr ''course-1''), (''lastModified'', JNum 0)]"

definition zero_remote :: entity where
  "zero_remote = [(''id'', JStr ''course-1''), (''lastModified'', JNum 5)]"

definition zero_db :: golfdb where
  "zero_db = init\<lparr>stores := (stores init)(''courses'' \<mapsto> [(''course-1'', zero_local)])\<rparr>"

text \<open>
  The conflict between the two versions of the course, the database after it was stored
  for manual resolution at clock reading 1000, and a database that holds a stored
  conflict with no local side.
\<close>

definition ex_conflict :: conflict where
  "ex_conflict = mkConflict ''server_newer'' (Some ex_local) (Some ex_remote)"

definition ex_conflict_db :: golfdb where
  "ex_conflict_db = storeConflict ''courses'' ex_conflict 1000 1000 ex_db"

definition server_only_db :: golfdb where
  "server_only_db =
     storeConflict ''courses'' (mkConflict ''server_only'' None (Some ex_remote)) 1000 1000 init"

text \<open>
  The scenario of the spec: a \<open>put\<close> for \<open>round-123\<close> enqueued while offline, at
  clock reading 1000; then a second one at 2000. \<open>fail_first\<close> is an endpoint that
  refuses the first item and accepts every other. \<open>syncing_hook\<close> is the hook online,
  in state \<open>syncing\<close>, over the queue with the one item.
\<close>

definition ex_item :: syncItem where
  "ex_item = \<lparr> q_id = ''sync-1000-0.25'', q_storeName = ''rounds'', q_operation = ''put'',
               q_data = JObj [(''id'', JStr ''round-123'')], q_timestamp = 1000,
               q_retries = 0, q_status = ''pending'' \<rparr>"

definition ex_item2 :: syncItem where
  "ex_item2 = \<lparr> q_id = ''sync-2000-0.75'', q_storeName = ''rounds'', q_operation = ''put'',
                q_data = JObj [(''id'', JStr ''round-124'')], q_timestamp = 2000,
                q_retries = 0, q_status = ''pending'' \<rparr>"

definition ex_queue_db :: golfdb where
  "ex_queue_db =
     addToSyncQueue ''rounds'' ''put'' (JObj [(''id'', JStr ''round-123'')]) 1000 ''0.25'' 1000
       init"

definition ex_queue_db2 :: golfdb where
  "ex_queue_db2 =
     addToSyncQueue ''rounds'' ''put'' (JObj [(''id'', JStr ''round-124'')]) 2000 ''0.75'' 2000
       ex_queue_db"

text \<open>
  Two mutations enqueued within the same millisecond 1000, the second one reading the
  clock again at 1001 for its timestamp: \<open>Math.random()\<close> gave 0.75 to the first and
  0.25 to the second.
\<close>

definition tie_item1 :: syncItem where
  "tie_item1 = \<lparr> q_id = ''sync-1000-0.75'', q_storeName = ''rounds'', q_operation = ''put'',
                 q_data = JObj [(''id'', JStr ''round-123'')], q_timestamp = 1000,
                 q_retries = 0, q_status = ''pending'' \<rparr>"

definition tie_item2 :: syncItem where
  "tie_item2 = \<lparr> q_id = ''sync-1000-0.25'', q_storeName = ''rounds'', q_operation = ''put'',
                 q_data = JObj [(''id'', JStr ''round-124'')], q_timestamp = 1001,
                 q_retries = 0, q_status = ''pending'' \<rparr>"

definition tie_db :: golfdb where
  "tie_db =
     addToSyncQueue ''rounds'' ''put'' (JObj [(''id'', JStr ''round-124'')]) 1000 ''0.25'' 1001
       (addToSyncQueue ''rounds'' ''put'' (JObj [(''id'', JStr ''round-123'')]) 1000 ''0.75'' 1000
          init)"

definition fail_first :: "syncItem \<Rightarrow> error + unit" where
  "fail_first item =
     (if q_id item = ''sync-1000-0.25'' then Inl (Error ''Network error'') else Inr ())"

definition syncing_hook :: hook where
  "syncing_hook = \<lparr> db_handle = Some ex_queue_db, courses = [], rounds = [],
                    holeScores = [], isOnline = True, syncStatus = S_syncing,
                    pendingConflicts = [] \<rparr>"

definition online_hook :: hook where
  "online_hook = \<lparr> db_handle = Some ex_queue_db2, courses = [], rounds = [],
                   holeScores = [], isOnline = True, syncStatus = S_idle,
                   pendingConflicts = [] \<rparr>"

text \<open>
  A hook whose database holds the course, one round on it and one hole score, with its
  three lists in step; and a hook whose only record is a hole the player has not scored
  yet (the round form starts every hole with \<open>score: null\<close>, and \<open>saveRound\<close> stores
  the holes as they are).
\<close>

definition ex_round :: entity where
  "ex_round = [(''id'', JStr ''round-1''), (''courseId'', JStr ''course-1''),
               (''totalScore'', JNum 80)]"

definition ex_hole :: entity where
  "ex_hole = [(''id'', JStr ''hole-round-1-1''), (''roundId'', JStr ''round-1''),
              (''holeNumber'', JNum 1), (''score'', JNum 4)]"

definition full_db :: golfdb where
  "full_db = init\<lparr>stores := (stores init)
     (''courses'' \<mapsto> [(''course-1'', ex_local)], ''rounds'' \<mapsto> [(''round-1'', ex_round)],
      ''holeScores'' \<mapsto> [(''hole-round-1-1'', ex_hole)])\<rparr>"

definition full_hook :: hook where
  "full_hook = \<lparr> db_handle = Some full_db, courses = [JObj ex_local],
                 rounds = [JObj ex_round], holeScores = [JObj ex_hole], isOnline = True,
                 syncStatus = S_idle, pendingConflicts = [] \<rparr>"

definition unscored_hole :: entity where
  "unscored_hole = [(''id'', JStr ''hole-round-1-2''), (''roundId'', JStr ''round-1''),
                    (''holeNumber'', JNum 2), (''score'', JNull)]"

definition unscored_hook :: hook where
  "unscored_hook =
     \<lparr> db_handle = Some (init\<lparr>stores := (stores init)
                       (''holeScores'' \<mapsto> [(''hole-round-1-2'', unscored_hole)])\<rparr>),
       courses = [], rounds = [], holeScores = [JObj unscored_hole], isOnline = True,
       syncStatus = S_idle, pendingConflicts = [] \<rparr>"

text \<open>
  A hook in step with its database (one course, one round), a backup file with one
  other course, and the hook as \<open>importData\<close> of that file leaves it: the new course
  is added to the collection, and the lists of the hook are set to those of the file.
\<close>

definition course0 :: entity where
  "course0 = [(''id'', JStr ''course-0''), (''name'', JStr ''Links'')]"

definition course1 :: entity where
  "course1 = [(''id'', JStr ''course-1''), (''name'', JStr ''Old Course'')]"

definition in_step_hook :: hook where
  "in_step_hook =
     \<lparr> db_handle = Some (init\<lparr>stores := (stores init)
                       (''courses'' \<mapsto> [(''course-0'', course0)],
                        ''rounds'' \<mapsto> [(''round-1'', ex_round)])\<rparr>),
       courses = [JObj course0], rounds = [JObj ex_round], holeScores = [], isOnline = True,
       syncStatus = S_idle, pendingConflicts = [] \<rparr>"

definition one_course_file :: jsval where
  "one_course_file =
     JObj [(''courses'', JArr [JObj course1]), (''rounds'', JArr []),
           (''holeScores'', JArr []), (''exportDate'', JStr ''2026-11-02'')]"

definition stale_hook :: hook where
  "stale_hook = snd (importData (Some one_course_file) in_step_hook)"

text \<open>
  A course with no par, the version of the server with a property \<open>__proto__\<close> of its
  own (as \<open>JSON.parse\<close> makes of \<open>{"id": "course-1", "__proto__": {"par": 1}}\<close>), and rules
  that name that property.
\<close>

definition proto_local :: entity where
  "proto_local = [(''id'', JStr ''course-1''), (''name'', JStr ''Old Course'')]"

definition proto_remote :: entity where
  "proto_remote = [(''id'', JStr ''course-1''), (''__proto__'', JObj [(''par'', JNum 1)])]"

definition proto_rules :: "(string \<times> string) list option" where
  "proto_rules = Some [(''__proto__'', ''use_remote'')]"

section \<open>The store: idempotence of put, uniqueness of add\<close>

lemma store_get_put: "store_get k (store_put k v rs) = Some v"
  by (induction rs) (auto simp: store_get_def)

lemma store_put_twice: "store_put k v (store_put k v rs) = store_put k v rs"
  by (induction rs) auto

text \<open>
  C7. \<open>put\<close> is idempotent: when the store exists and the entity carries a key,
  \<open>put(c, e)\<close> succeeds, a second \<open>put(c, e)\<close> succeeds too and leaves the database as
  the first one left it, and \<open>get(c, e.id)\<close> then returns \<open>e\<close>.
\<close>

theorem put_idempotent:
  assumes "stores db c = Some rs" and "key_of c e = Some k"
  shows "\<exists>db1. put c e db = Inr db1 \<and> put c e db1 = Inr db1 \<and> get c k db1 = Inr (Some e)"
  using assms by (simp add: put_def get_def store_put_twice store_get_put)

theorem put_idempotent_witness:
  "stores init ''courses'' = Some []
   \<and> key_of ''courses'' [(''id'', JStr ''c1''), (''par'', JNum 72)] = Some ''c1''
   \<and> (\<exists>db1. put ''courses'' [(''id'', JStr ''c1''), (''par'', JNum 72)] init = Inr db1
        \<and> put ''courses'' [(''id'', JStr ''c1''), (''par'', JNum 72)] db1 = Inr db1
        \<and> get ''courses'' ''c1'' db1 = Inr (Some [(''id'', JStr ''c1''), (''par'', JNum 72)]))"
proof -
  have s: "stores init ''courses'' = Some []"
    by (simp add: init_def)
  have k: "key_of ''courses'' [(''id'', JStr ''c1''), (''par'', JNum 72)] = Some ''c1''"
    by (simp add: key_of_def keyPath_def getField_def)
  from put_idempotent [OF s k] s k show ?thesis by blast
qed

text \<open>
  C8. \<open>add\<close> refuses a second entity under a key that is taken: when the store exists
  and holds no record under the key of \<open>e1\<close>, \<open>add(c, e1)\<close> succeeds, \<open>add(c, e2)\<close> for
  any \<open>e2\<close> with the same key then fails with \<open>ConstraintError\<close> (the database being
  left as it was), and \<open>get(c, id)\<close> still returns \<open>e1\<close>.
\<close>

theorem add_duplicate_key:
  assumes "stores db c = Some rs" and "store_get k rs = None"
    and "key_of c e1 = Some k" and "key_of c e2 = Some k"
  shows "\<exists>db1. add c e1 db = Inr db1 \<and> add c e2 db1 = Inl ConstraintError
               \<and> get c k db1 = Inr (Some e1)"
  using assms by (simp add: add_def get_def store_add_def store_get_put)

theorem add_duplicate_key_witness:
  "stores init ''rounds'' = Some [] \<and> store_get ''r1'' ([] :: entity objectStore) = None
   \<and> key_of ''rounds'' [(''id'', JStr ''r1''), (''totalScore'', JNum 80)] = Some ''r1''
   \<and> key_of ''rounds'' [(''id'', JStr ''r1''), (''totalScore'', JNum 95)] = Some ''r1''
   \<and> (\<exists>db1. add ''rounds'' [(''id'', JStr ''r1''), (''totalScore'', JNum 80)] init = Inr db1
        \<and> add ''rounds'' [(''id'', JStr ''r1''), (''totalScore'', JNum 95)] db1
            = Inl ConstraintError
        \<and> get ''rounds'' ''r1'' db1
            = Inr (Some [(''id'', JStr ''r1''), (''totalScore'', JNum 80)]))"
proof -
  have s: "stores init ''rounds'' = Some []"
    by (simp add: init_def)
  have g: "store_get ''r1'' ([] :: entity objectStore) = None"
    by (simp add: store_get_def)
  have k1: "key_of ''rounds'' [(''id'', JStr ''r1''), (''totalScore'', JNum 80)] = Some ''r1''"
    by (simp add: key_of_def keyPath_def getField_def)
  have k2: "key_of ''rounds'' [(''id'', JStr ''r1''), (''totalScore'', JNum 95)] = Some ''r1''"
    by (simp add: key_of_def keyPath_def getField_def)
  from add_duplicate_key [OF s g k1 k2] s g k1 k2 show ?thesis by blast
qed

section \<open>Merging\<close>

lemma map_of_setField:
  "map_of (setField k v e) k' = (if k' = k then Some v else map_of e k')"
  by (induction e) auto

lemma getField_setField:
  "getField (setField k v e) k' = (if k' = k then v else getField e k')"
  by (simp add: getField_def map_of_setField)

lemma own_setPrototype: "own (setPrototype v m) = own m"
  by (induction v m rule: setPrototype.induct) simp_all

lemma assign_plain:
  "field \<noteq> ''__proto__'' \<Longrightarrow> assign field v m = m\<lparr>own := setField field v (own m)\<rparr>"
  by (simp add: assign_def)

lemma assign_other:
  "f \<noteq> field \<Longrightarrow> map_of (own (assign field v m)) f = map_of (own m) f"
  by (auto simp: assign_def map_of_setField own_setPrototype split: ref.splits jsval.splits)

lemma applyRule_total: "\<exists>m'. applyRule (Some l) (Some r) m fr = Inr m'"
  by (auto simp: applyRule_def member_def Let_def split: ref.splits jsval.splits)

lemma applyRule_other:
  "applyRule local remote m fr = Inr m' \<Longrightarrow> f \<noteq> fst fr \<Longrightarrow>
   map_of (own m') f = map_of (own m) f"
  by (auto simp: applyRule_def member_def Let_def assign_other
           split: ref.splits jsval.splits if_splits sum.splits option.splits)

lemma applyRule_proto:
  "applyRule local remote m fr = Inr m' \<Longrightarrow> fst fr \<noteq> ''__proto__'' \<Longrightarrow> proto m' = proto m"
  by (auto simp: applyRule_def member_def Let_def assign_plain
           split: ref.splits jsval.splits if_splits sum.splits option.splits)

lemma applyRule_latest:
  "applyRule local (Some r) m (f, ''latest'') = Inr m' \<Longrightarrow> f \<noteq> ''__proto__'' \<Longrightarrow>
   map_of (own m') f = Some (readField r f)"
  by (auto simp: applyRule_def member_def Let_def assign_plain map_of_setField)

lemma applyRule_combine:
  "applyRule (Some l) (Some r) m (f, ''combine'') = Inr m' \<Longrightarrow>
   \<not> (isArray (getField l f) \<and> isArray (getField r f)) \<Longrightarrow> m' = m"
  by (auto simp: applyRule_def member_def readField_def getField_def Let_def
           split: ref.splits jsval.splits if_splits option.splits)

lemma applyRules_total: "\<exists>m'. applyRules (Some l) (Some r) rules m = Inr m'"
proof (induction rules arbitrary: m)
  case Nil
  then show ?case by simp
next
  case (Cons fr rules)
  obtain m1 where "applyRule (Some l) (Some r) m fr = Inr m1"
    using applyRule_total by blast
  with Cons show ?case by simp
qed

lemma applyRules_other:
  "applyRules local remote rules m = Inr m' \<Longrightarrow> f \<notin> fst ` set rules \<Longrightarrow>
   map_of (own m') f = map_of (own m) f"
proof (induction rules arbitrary: m)
  case Nil
  then show ?case by simp
next
  case (Cons fr rules)
  then obtain m1 where s: "applyRule local remote m fr = Inr m1"
    and t: "applyRules local remote rules m1 = Inr m'"
    by (auto split: sum.splits)
  from Cons.prems(2) have "f \<noteq> fst fr" "f \<notin> fst ` set rules" by auto
  with Cons.IH [OF t] applyRule_other [OF s] show ?case by simp
qed

lemma applyRules_proto:
  "applyRules local remote rules m = Inr m' \<Longrightarrow> ''__proto__'' \<notin> fst ` set rules \<Longrightarrow>
   proto m' = proto m"
proof (induction rules arbitrary: m)
  case Nil
  then show ?case by simp
next
  case (Cons fr rules)
  then obtain m1 where s: "applyRule local remote m fr = Inr m1"
    and t: "applyRules local remote rules m1 = Inr m'"
    by (auto split: sum.splits)
  from Cons.prems(2) have "fst fr \<noteq> ''__proto__''" "''__proto__'' \<notin> fst ` set rules" by auto
  with Cons.IH [OF t] applyRule_proto [OF s] show ?case by simp
qed

text \<open>
  With distinct field names, the rule of a field decides the field: the rules before
  and after it leave it alone.
\<close>

lemma applyRules_at:
  assumes "applyRules (Some l) (Some r) rules m = Inr m'"
    and "distinct (map fst rules)" and "(f, rule) \<in> set rules" and "f \<noteq> ''__proto__''"
  shows "(rule = ''latest'' \<longrightarrow> map_of (own m') f = Some (readField r f))
       \<and> (rule = ''combine'' \<and> \<not> (isArray (getField l f) \<and> isArray (getField r f))
            \<longrightarrow> map_of (own m') f = map_of (own m) f)"
  using assms
proof (induction rules arbitrary: m)
  case Nil
  then show ?case by simp
next
  case (Cons fr rules)
  then obtain m1 where s: "applyRule (Some l) (Some r) m fr = Inr m1"
    and t: "applyRules (Some l) (Some r) rules m1 = Inr m'"
    by (auto split: sum.splits)
  from Cons.prems(2) have d: "distinct (map fst rules)" and n: "fst fr \<notin> fst ` set rules"
    by auto
  show ?case
  proof (cases "fr = (f, rule)")
    case True
    with n have "f \<notin> fst ` set rules" by simp
    from applyRules_other [OF t this] have e: "map_of (own m') f = map_of (own m1) f" .
    from s True have s': "applyRule (Some l) (Some r) m (f, rule) = Inr m1" by simp
    show ?thesis
      using e applyRule_latest [of "Some l" r m f m1] applyRule_combine [of l r m f m1] s'
        Cons.prems(4)
      by auto
  next
    case False
    with Cons.prems(3) have i: "(f, rule) \<in> set rules" by simp
    have "f \<noteq> fst fr"
    proof
      assume "f = fst fr"
      with i have "fst fr \<in> fst ` set rules" by (metis fst_conv image_eqI)
      with n show False by simp
    qed
    from applyRule_other [OF s this] have "map_of (own m1) f = map_of (own m) f" .
    with Cons.IH [OF t d i Cons.prems(4)] show ?thesis by simp
  qed
qed

text \<open>A read of the copy \<open>{ ...local }\<close> gives what the same read of \<open>local\<close> gives.\<close>

lemma own_copyOf: "map_of (own (copyOf (Some l))) f = map_option Value (map_of l f)"
  by (simp add: copyOf_def spread_def map_of_map)

lemma readMerged_plain:
  "proto m = ObjectPrototype \<Longrightarrow>
   readMerged m f =
     (case map_of (own m) f of
        Some v \<Rightarrow> v
      | None \<Rightarrow> if f = ''__proto__'' then ObjectPrototype else Value JUndefined)"
  by (simp add: readMerged_def split: option.splits)

lemma readMerged_copyOf: "readMerged (copyOf (Some l)) f = readField l f"
proof -
  have "proto (copyOf (Some l)) = ObjectPrototype"
    by (simp add: copyOf_def)
  then show ?thesis
    by (simp add: readMerged_plain own_copyOf readField_def split: option.splits)
qed

text \<open>
  Where no rule is named \<open>__proto__\<close>, merging defaults to the local entity. For a
  local entity, a remote entity and such a rule set (an object, so its field names are
  distinct), \<open>mergeData\<close> returns an object that reads as the local one on every field
  the rule set does not name; a \<open>combine\<close> rule on a field where either side is not an
  array leaves the local value; a \<open>latest\<close> rule takes the remote value, no timestamp
  being read.
\<close>

lemma mergeData_local_default:
  assumes "distinct (map fst (entries rules))"
    and "''__proto__'' \<notin> fst ` set (entries rules)"
  shows "\<exists>merged. mergeData (Some l) (Some r) rules = Inr merged
     \<and> (\<forall>f. f \<notin> fst ` set (entries rules) \<longrightarrow> readMerged merged f = readField l f)
     \<and> (\<forall>f. (f, ''combine'') \<in> set (entries rules)
             \<and> \<not> (isArray (getField l f) \<and> isArray (getField r f))
           \<longrightarrow> readMerged merged f = readField l f)
     \<and> (\<forall>f. (f, ''latest'') \<in> set (entries rules) \<longrightarrow> readMerged merged f = readField r f)"
proof -
  obtain merged where
    m: "applyRules (Some l) (Some r) (entries rules) (copyOf (Some l)) = Inr merged"
    using applyRules_total by blast
  have "proto merged = proto (copyOf (Some l))"
    using applyRules_proto [OF m assms(2)] .
  then have p: "proto merged = ObjectPrototype"
    by (simp add: copyOf_def)
  have rd: "readMerged merged f = readField l f"
    if "map_of (own merged) f = map_of (own (copyOf (Some l))) f" for f
    using that readMerged_copyOf [of l f]
    by (simp add: readMerged_plain [OF p] readMerged_plain copyOf_def)
  have named: "f \<noteq> ''__proto__''" if "(f, rule) \<in> set (entries rules)" for f rule
  proof
    assume "f = ''__proto__''"
    with that have "''__proto__'' \<in> fst ` set (entries rules)"
      by (metis fst_conv image_eqI)
    with assms(2) show False by simp
  qed
  have a: "\<forall>f. f \<notin> fst ` set (entries rules) \<longrightarrow> readMerged merged f = readField l f"
    using applyRules_other [OF m] rd by blast
  have b: "\<forall>f. (f, ''combine'') \<in> set (entries rules)
             \<and> \<not> (isArray (getField l f) \<and> isArray (getField r f))
           \<longrightarrow> readMerged merged f = readField l f"
    using applyRules_at [OF m assms(1)] named rd by blast
  have c: "\<forall>f. (f, ''latest'') \<in> set (entries rules) \<longrightarrow> readMerged merged f = readField r f"
  proof (intro allI impI)
    fix f
    assume i: "(f, ''latest'') \<in> set (entries rules)"
    from applyRules_at [OF m assms(1) i named [OF i]]
    have "map_of (own merged) f = Some (readField r f)" by simp
    then show "readMerged merged f = readField r f"
      by (simp add: readMerged_plain [OF p])
  qed
  from m a b c show ?thesis
    by (simp add: mergeData_def)
qed

text \<open>
  The two versions of the course under the rules \<open>tags: combine, name: latest\<close>: the
  par stays the local one, the tags too (the remote \<open>tags\<close> is not an array), the name
  becomes the remote one.
\<close>

lemma mergeData_local_default_example:
  "\<exists>merged. mergeData (Some ex_local) (Some ex_remote) ex_rules = Inr merged
      \<and> readMerged merged ''par'' = Value (JNum 72)
      \<and> readMerged merged ''tags'' = Value (JArr [JStr ''links''])
      \<and> readMerged merged ''name'' = Value (JStr ''New Course'')"
proof -
  have d: "distinct (map fst (entries ex_rules))"
    by (simp add: ex_rules_def entries_def)
  have n: "''__proto__'' \<notin> fst ` set (entries ex_rules)"
    by (simp add: ex_rules_def entries_def)
  from mergeData_local_default [OF d n, of ex_local ex_remote]
  obtain merged where m: "mergeData (Some ex_local) (Some ex_remote) ex_rules = Inr merged"
    and a: "\<forall>f. f \<notin> fst ` set (entries ex_rules) \<longrightarrow> readMerged merged f = readField ex_local f"
    and b: "\<forall>f. (f, ''combine'') \<in> set (entries ex_rules)
             \<and> \<not> (isArray (getField ex_local f) \<and> isArray (getField ex_remote f))
           \<longrightarrow> readMerged merged f = readField ex_local f"
    and c: "\<forall>f. (f, ''latest'') \<in> set (entries ex_rules)
           \<longrightarrow> readMerged merged f = readField ex_remote f"
    by blast
  have "readMerged merged ''par'' = readField ex_local ''par''"
    using a by (simp add: ex_rules_def entries_def)
  moreover have "readMerged merged ''tags'' = readField ex_local ''tags''"
    using b by (simp add: ex_rules_def entries_def ex_local_def ex_remote_def getField_def)
  moreover have "readMerged merged ''name'' = readField ex_remote ''name''"
    using c by (simp add: ex_rules_def entries_def)
  ultimately show ?thesis
    using m by (simp add: ex_local_def ex_remote_def readField_def)
qed

text \<open>
  C10. Merge resolution is to default to the local entity: the merged entity agrees with
  the local one on every field the rule set does not name. It does not when a rule is
  named \<open>__proto__\<close>. The local course has no \<open>par\<close>; the remote one, as parsed from
  the server's JSON, has a property \<open>__proto__\<close> of its own, the object
  \<open>{par: 1}\<close>; the rule set is \<open>{"__proto__": "use_remote"}\<close>, which does not name
  \<open>par\<close>. The assignment \<open>merged[field] = remote[field]\<close> then makes that object the
  prototype of \<open>merged\<close>, and \<open>merged.par\<close> reads 1 where \<open>local.par\<close> is
  \<open>undefined\<close>.
\<close>

theorem mergeData_proto_rule:
  "mergeData (Some proto_local) (Some proto_remote) proto_rules
     = Inr \<lparr> own = [(''id'', Value (JStr ''course-1'')), (''name'', Value (JStr ''Old Course''))],
             proto = Value (JObj [(''par'', JNum 1)]) \<rparr>
   \<and> ''par'' \<notin> fst ` set (entries proto_rules)
   \<and> readField proto_local ''par'' = Value JUndefined
   \<and> readMerged \<lparr> own = [(''id'', Value (JStr ''course-1'')),
                         (''name'', Value (JStr ''Old Course''))],
                  proto = Value (JObj [(''par'', JNum 1)]) \<rparr> ''par'' = Value (JNum 1)"
  by (simp add: mergeData_def entries_def proto_rules_def proto_local_def proto_remote_def
        copyOf_def spread_def applyRule_def member_def readField_def assign_def
        readMerged_def)

section \<open>Conflict classification\<close>

lemma strict_eq_sym: "strict_eq a b \<Longrightarrow> strict_eq b a"
  by (cases a; cases b) auto

text \<open>
  Where a timestamp is not 0, the test \<open>remoteItem.lastModified && localItem.lastModified\<close>
  holds exactly when both timestamps are there.
\<close>

lemma stamped_truthy:
  "stamped e \<Longrightarrow> truthy (getField e ''lastModified'') \<longleftrightarrow> timestamp e \<noteq> None"
  by (cases "getField e ''lastModified''")
     (simp_all add: stamped_def declaredTimestamp_def timestamp_def)

lemma timestamp_Some: "timestamp e = Some n \<longleftrightarrow> getField e ''lastModified'' = JNum n"
  by (auto simp: timestamp_def split: jsval.splits)

text \<open>The body of the first loop on a remote item whose local counterpart is found.\<close>

lemma remoteItemConflicts_found:
  assumes "counterpart localData r = Some l" and "stamped l" and "stamped r"
  shows "remoteItemConflicts localData r = spec_detect (Some l) (Some r)"
proof -
  from assms(1) have f:
    "find (\<lambda>item. strict_eq (getField item ''id'') (getField r ''id'')) localData = Some l"
    by (simp add: counterpart_def)
  show ?thesis
  proof (cases "timestamp l")
    case None
    with stamped_truthy [OF assms(2)] have "\<not> truthy (getField l ''lastModified'')" by simp
    with None f show ?thesis
      by (simp add: remoteItemConflicts_def spec_content_def del: JSON_stringify.simps)
  next
    case (Some tloc)
    note L = this
    show ?thesis
    proof (cases "timestamp r")
      case None
      with stamped_truthy [OF assms(3)] have "\<not> truthy (getField r ''lastModified'')" by simp
      with None L f show ?thesis
        by (simp add: remoteItemConflicts_def spec_content_def del: JSON_stringify.simps)
    next
      case (Some trem)
      from L have gl: "getField l ''lastModified'' = JNum tloc"
        by (simp add: timestamp_Some)
      from Some have gr: "getField r ''lastModified'' = JNum trem"
        by (simp add: timestamp_Some)
      from stamped_truthy [OF assms(2)] L have tl: "truthy (getField l ''lastModified'')"
        by simp
      from stamped_truthy [OF assms(3)] Some have tr: "truthy (getField r ''lastModified'')"
        by simp
      from tl tr gl gr f show ?thesis
        by (simp add: remoteItemConflicts_def spec_content_def L Some
                 del: JSON_stringify.simps)
    qed
  qed
qed

lemma remoteItemConflicts_missing:
  "counterpart localData r = None \<Longrightarrow> remoteItemConflicts localData r = spec_detect None (Some r)"
  by (simp add: remoteItemConflicts_def counterpart_def)

text \<open>
  The body of the second loop: a local item with no remote counterpart is
  \<open>local_only\<close>; one with a counterpart was classified by the first loop.
\<close>

lemma localItemConflicts_missing:
  "counterpart remoteData l = None \<Longrightarrow> localItemConflicts remoteData l = spec_detect (Some l) None"
  by (simp add: localItemConflicts_def counterpart_def)

lemma localItemConflicts_found:
  "counterpart remoteData l = Some r \<Longrightarrow> localItemConflicts remoteData l = []"
  by (simp add: localItemConflicts_def counterpart_def)

lemma counterpart_member: "counterpart items x = Some y \<Longrightarrow> y \<in> set items"
  by (auto simp: counterpart_def find_Some_iff)

text \<open>
  Where every \<open>lastModified\<close> is of its declared type and none is 0,
  \<open>detectConflicts\<close> classifies as \<open>spec_detect\<close> says, whatever the collection and
  the remote data hold: each remote item against its local counterpart (both present,
  or only the remote one), then each local item that has no remote counterpart.
\<close>

lemma detectConflicts_classifies:
  assumes "getAll c d = Inr localData"
    and "list_all stamped localData" and "list_all stamped remoteData"
  shows "detectConflicts c remoteData d
     = Inr (concat (map (\<lambda>r. spec_detect (counterpart localData r) (Some r)) remoteData)
            @ concat (map (\<lambda>l. case counterpart remoteData l of
                                  None \<Rightarrow> spec_detect (Some l) None
                                | Some r \<Rightarrow> []) localData))"
proof -
  have a: "remoteItemConflicts localData r = spec_detect (counterpart localData r) (Some r)"
    if "r \<in> set remoteData" for r
  proof (cases "counterpart localData r")
    case None
    then show ?thesis by (simp add: remoteItemConflicts_missing)
  next
    case (Some l)
    from counterpart_member [OF Some] assms(2) have "stamped l"
      by (simp add: list_all_iff)
    moreover from that assms(3) have "stamped r"
      by (simp add: list_all_iff)
    ultimately show ?thesis
      using Some by (simp add: remoteItemConflicts_found)
  qed
  have b: "localItemConflicts remoteData l
      = (case counterpart remoteData l of None \<Rightarrow> spec_detect (Some l) None | Some r \<Rightarrow> [])"
    for l
    by (cases "counterpart remoteData l")
       (simp_all add: localItemConflicts_missing localItemConflicts_found)
  have ra: "map (remoteItemConflicts localData) remoteData
      = map (\<lambda>r. spec_detect (counterpart localData r) (Some r)) remoteData"
    by (rule map_cong [OF refl]) (rule a)
  have rb: "map (localItemConflicts remoteData) localData
      = map (\<lambda>l. case counterpart remoteData l of
                    None \<Rightarrow> spec_detect (Some l) None | Some r \<Rightarrow> []) localData"
    by (rule map_cong [OF refl]) (rule b)
  show ?thesis
    using assms(1) by (simp add: detectConflicts_def ra rb)
qed

text \<open>
  The scenario of the spec: local \<open>course-1\<close> modified at 100, remote \<open>course-1\<close>
  modified at 200 with another par.
\<close>

lemma detectConflicts_example:
  "detectConflicts ''courses'' [ex_remote] ex_db
     = Inr [mkConflict ''server_newer'' (Some ex_local) (Some ex_remote)]"
proof -
  have g: "getAll ''courses'' ex_db = Inr [ex_local]"
    by (simp add: getAll_def ex_db_def init_def store_getAll_def)
  have l: "list_all stamped [ex_local]"
    by (simp add: stamped_def declaredTimestamp_def ex_local_def getField_def)
  have r: "list_all stamped [ex_remote]"
    by (simp add: stamped_def declaredTimestamp_def ex_remote_def getField_def)
  have cl: "counterpart [ex_local] ex_remote = Some ex_local"
    by (simp add: counterpart_def ex_local_def ex_remote_def getField_def)
  have cr: "counterpart [ex_remote] ex_local = Some ex_remote"
    by (simp add: counterpart_def ex_local_def ex_remote_def getField_def)
  have "spec_detect (Some ex_local) (Some ex_remote)
          = [mkConflict ''server_newer'' (Some ex_local) (Some ex_remote)]"
    by (simp add: timestamp_def ex_local_def ex_remote_def getField_def)
  with detectConflicts_classifies [OF g l r] cl cr show ?thesis by simp
qed

text \<open>
  C2. Both versions present with \<open>remote.lastModified > local.lastModified\<close> is to
  give \<open>server_newer\<close>. It does not where a timestamp is 0: the remote
  \<open>lastModified\<close> 5 is greater than the local 0, \<open>spec_detect\<close> says
  \<open>server_newer\<close>, and \<open>detectConflicts\<close> returns \<open>content_conflict\<close>. The test
  \<open>remoteItem.lastModified && localItem.lastModified\<close> takes the number 0 for no
  timestamp and sends the pair to the branch the source comments \<open>No timestamps\<close>.
\<close>

theorem detectConflicts_zero_timestamp:
  "getField zero_remote ''lastModified'' = JNum 5
   \<and> getField zero_local ''lastModified'' = JNum 0
   \<and> spec_detect (Some zero_local) (Some zero_remote)
       = [mkConflict ''server_newer'' (Some zero_local) (Some zero_remote)]
   \<and> detectConflicts ''courses'' [zero_remote] zero_db
       = Inr [mkConflict ''content_conflict'' (Some zero_local) (Some zero_remote)]
   \<and> mkConflict ''content_conflict'' (Some zero_local) (Some zero_remote)
       \<noteq> mkConflict ''server_newer'' (Some zero_local) (Some zero_remote)"
  by (simp add: detectConflicts_def getAll_def zero_db_def init_def store_getAll_def
        remoteItemConflicts_def localItemConflicts_def zero_local_def zero_remote_def
        getField_def mkConflict_def timestamp_def
        show_int_def show_nat.simps digit_char_def quote_def quote_char_def)

section \<open>Resolution\<close>


lemma keyPath_not_meta [simp]:
  "keyPath c \<noteq> ''lastModified''" "keyPath c \<noteq> ''synced''"
  by (simp_all add: keyPath_def)

lemma key_of_setField: "keyPath c \<noteq> k' \<Longrightarrow> key_of c (setField k' v e) = key_of c e"
  by (simp add: key_of_def getField_setField)

lemma store_get_delete: "store_get k (store_delete k rs) = None"
  by (induction rs) (auto simp: store_get_def store_delete_def)

lemma put_result:
  "stores d c = Some rs \<Longrightarrow> key_of c e = Some k \<Longrightarrow>
   put c e d = Inr (d\<lparr>stores := (stores d)(c \<mapsto> store_put k e rs)\<rparr>)"
  by (simp add: put_def)

lemma resolveConflict_use_local_put:
  assumes "strategy res = ''use_local''" and "c_local cf = Some l"
    and "stores d c = Some rs" and "key_of c l = Some k"
  shows "resolveConflict c cf res t1 t2 d
     = Inr (d\<lparr>stores := (stores d)(c \<mapsto> store_put k
              (setField ''synced'' (JBool False)
                 (setField ''lastModified'' (JNum (int t1)) l)) rs)\<rparr>)"
proof -
  let ?e = "setField ''synced'' (JBool False) (setField ''lastModified'' (JNum (int t1)) l)"
  have k: "key_of c ?e = Some k"
    using assms(4) by (simp add: key_of_setField)
  have "resolveConflict c cf res t1 t2 d = put c ?e d"
    using assms(1,2) by (simp add: resolveConflict_def spread_def)
  also have "\<dots> = Inr (d\<lparr>stores := (stores d)(c \<mapsto> store_put k ?e rs)\<rparr>)"
    using assms(3) k by (rule put_result)
  finally show ?thesis .
qed

text \<open>
  C1, as amended. For a conflict whose local entity is present and carries a key,
  resolving with \<open>use_local\<close> stores the local entity under its key with
  \<open>lastModified\<close> set to the clock reading and \<open>synced = false\<close>, every other field
  as it was, and leaves the synchronisation queue as it is: no item is appended.
\<close>

theorem resolveConflict_use_local:
  assumes "strategy res = ''use_local''" and "c_local cf = Some l"
    and "stores d c = Some rs" and "key_of c l = Some k"
  shows "\<exists>d' e. resolveConflict c cf res t1 t2 d = Inr d' \<and> get c k d' = Inr (Some e)
     \<and> getField e ''lastModified'' = JNum (int t1) \<and> getField e ''synced'' = JBool False
     \<and> (\<forall>f. f \<noteq> ''lastModified'' \<and> f \<noteq> ''synced'' \<longrightarrow> getField e f = getField l f)
     \<and> syncQueue d' = syncQueue d"
proof -
  let ?e = "setField ''synced'' (JBool False) (setField ''lastModified'' (JNum (int t1)) l)"
  have "get c k (d\<lparr>stores := (stores d)(c \<mapsto> store_put k ?e rs)\<rparr>) = Inr (Some ?e)"
    by (simp add: get_def store_get_put)
  with resolveConflict_use_local_put [OF assms, of t1 t2] show ?thesis
    by (auto simp: getField_setField)
qed

lemma ex_db_courses: "stores ex_db ''courses'' = Some [(''course-1'', ex_local)]"
  by (simp add: ex_db_def init_def)

theorem resolveConflict_use_local_witness:
  "strategy \<lparr>strategy = ''use_local'', mergeRules = None\<rparr> = ''use_local''
   \<and> c_local ex_conflict = Some ex_local
   \<and> stores ex_db ''courses'' = Some [(''course-1'', ex_local)]
   \<and> key_of ''courses'' ex_local = Some ''course-1''
   \<and> (\<exists>d' e. resolveConflict ''courses'' ex_conflict
                 \<lparr>strategy = ''use_local'', mergeRules = None\<rparr> 300 300 ex_db = Inr d'
         \<and> get ''courses'' ''course-1'' d' = Inr (Some e)
         \<and> getField e ''lastModified'' = JNum 300 \<and> getField e ''synced'' = JBool False
         \<and> getField e ''par'' = JNum 72
         \<and> syncQueue d' = [])"
proof -
  have a: "strategy \<lparr>strategy = ''use_local'', mergeRules = None\<rparr> = ''use_local''" by simp
  have b: "c_local ex_conflict = Some ex_local"
    by (simp add: ex_conflict_def mkConflict_def)
  have k: "key_of ''courses'' ex_local = Some ''course-1''"
    by (simp add: key_of_def keyPath_def ex_local_def getField_def)
  have q: "syncQueue ex_db = []" by (simp add: ex_db_def init_def)
  have p: "getField ex_local ''par'' = JNum 72" by (simp add: ex_local_def getField_def)
  from resolveConflict_use_local [OF a b ex_db_courses k, of 300 300]
  show ?thesis using a b k q p ex_db_courses by force
qed

text \<open>
  C1 as stated fails: after \<open>use_local\<close> on the conflict of the example the queue is
  empty, where the claim has one new pending \<open>put\<close> item.
\<close>

theorem resolveConflict_use_local_no_queue_item:
  "map_sum id getSyncQueue
     (resolveConflict ''courses'' ex_conflict \<lparr>strategy = ''use_local'', mergeRules = None\<rparr>
        300 300 ex_db) = Inr []"
  by (simp add: resolveConflict_def ex_conflict_def mkConflict_def spread_def put_def
        ex_db_def init_def key_of_def keyPath_def ex_local_def getField_def getSyncQueue_def
        store_getAll_def)


lemma resolveConflict_conflicts:
  "strategy res \<noteq> ''manual'' \<Longrightarrow> resolveConflict c cf res t1 t2 d = Inr d' \<Longrightarrow>
   conflicts d' = conflicts d"
  by (auto simp: resolveConflict_def put_def split: if_splits option.splits sum.splits)

lemma storeConflict_stores:
  "stores (storeConflict c cf t1 t2 d) = stores d"
  "syncQueue (storeConflict c cf t1 t2 d) = syncQueue d"
  by (simp_all add: storeConflict_def Let_def split: sum.splits)

lemma storeConflict_fresh:
  "store_get (''conflict-'' @ show_nat t1) (conflicts d) = None \<Longrightarrow>
   store_get (''conflict-'' @ show_nat t1) (conflicts (storeConflict c cf t1 t2 d))
     = Some \<lparr>cd_id = ''conflict-'' @ show_nat t1, cd_storeName = c, cd_conflict = cf,
              cd_timestamp = t2\<rparr>"
  by (simp add: storeConflict_def Let_def store_add_def store_get_put)

lemma map_of_cloneOf:
  "map_of (cloneOf kvs) f
     = map_option (\<lambda>v. case v of Value x \<Rightarrow> x | ObjectPrototype \<Rightarrow> JObj []) (map_of kvs f)"
  by (simp add: cloneOf_def map_of_map)

text \<open>Rules that leave the key field alone leave the merged entity under the local key.\<close>

lemma mergeData_key:
  assumes "keyPath c \<notin> fst ` set (entries rules)"
  shows "\<exists>m. mergeData (Some l) (Some r) rules = Inr m
     \<and> key_of c (cloneOf (setField ''synced'' (Value (JBool False))
                    (setField ''lastModified'' (Value (JNum (int t1))) (own m))))
       = key_of c l"
proof -
  obtain m where m: "applyRules (Some l) (Some r) (entries rules) (copyOf (Some l)) = Inr m"
    using applyRules_total by blast
  from applyRules_other [OF m assms]
  have "map_of (own m) (keyPath c) = map_option Value (map_of l (keyPath c))"
    by (simp add: own_copyOf)
  then have "getField (cloneOf (setField ''synced'' (Value (JBool False))
                    (setField ''lastModified'' (Value (JNum (int t1))) (own m)))) (keyPath c)
      = getField l (keyPath c)"
    by (simp add: getField_def map_of_cloneOf map_of_setField split: option.splits)
  then have "key_of c (cloneOf (setField ''synced'' (Value (JBool False))
                    (setField ''lastModified'' (Value (JNum (int t1))) (own m))))
      = key_of c l"
    by (simp add: key_of_def)
  with m show ?thesis by (simp add: mergeData_def)
qed

lemma resolveConflict_use_remote:
  assumes "strategy res = ''use_remote''" and "c_remote cf = Some r"
    and "stores d c = Some rs" and "key_of c r = Some k"
  shows "resolveConflict c cf res t1 t2 d
     = Inr (d\<lparr>stores := (stores d)(c \<mapsto> store_put k (setField ''synced'' (JBool True) r) rs)\<rparr>)"
proof -
  have "key_of c (setField ''synced'' (JBool True) r) = Some k"
    using assms(4) by (simp add: key_of_setField)
  with assms(1,2,3) show ?thesis
    by (simp add: resolveConflict_def spread_def put_result)
qed

lemma resolveConflict_merge:
  assumes "strategy res = ''merge''"
    and "c_local cf = Some l" and "c_remote cf = Some r"
    and "stores d c = Some rs" and "key_of c l = Some k"
    and "keyPath c \<notin> fst ` set (entries (mergeRules res))"
  shows "\<exists>d'. resolveConflict c cf res t1 t2 d = Inr d' \<and> conflicts d' = conflicts d"
proof -
  from mergeData_key [OF assms(6), of l r t1] obtain m
    where m: "mergeData (Some l) (Some r) (mergeRules res) = Inr m"
      and k: "key_of c (cloneOf (setField ''synced'' (Value (JBool False))
                    (setField ''lastModified'' (Value (JNum (int t1))) (own m))))
              = key_of c l" by blast
  from k assms(5) have "key_of c (cloneOf (setField ''synced'' (Value (JBool False))
                    (setField ''lastModified'' (Value (JNum (int t1))) (own m)))) = Some k"
    by simp
  with assms(1,2,3,4) m show ?thesis
    by (simp add: resolveConflict_def put_result)
qed

text \<open>
  Where the side a strategy stores is there, \<open>resolveStoredConflict\<close> clears the
  Conflict Record it is called on. \<open>use_local\<close> needs the local entity, with a key.
\<close>

lemma resolveStoredConflict_use_local_clears:
  assumes "store_get cid (conflicts d) = Some cd"
    and "stores d (cd_storeName cd) = Some rs"
    and "strategy res = ''use_local''"
    and "c_local (cd_conflict cd) = Some l" and "key_of (cd_storeName cd) l = Some k"
  shows "\<exists>d'. resolveStoredConflict cid res t1 t2 d = Inr d'
     \<and> store_get cid (conflicts d') = None"
  using resolveConflict_use_local_put [OF assms(3,4,2,5), of t1 t2] assms(1)
  by (simp add: resolveStoredConflict_def store_get_delete)

text \<open>
  \<open>use_remote\<close> needs the remote entity, with a key: the record is cleared and the
  remote entity stored with \<open>synced = true\<close>, its other fields as they were.
\<close>

lemma resolveStoredConflict_use_remote_clears:
  assumes "store_get cid (conflicts d) = Some cd"
    and "stores d (cd_storeName cd) = Some rs"
    and "strategy res = ''use_remote''"
    and "c_remote (cd_conflict cd) = Some r" and "key_of (cd_storeName cd) r = Some k"
  shows "\<exists>d' e. resolveStoredConflict cid res t1 t2 d = Inr d'
     \<and> store_get cid (conflicts d') = None
     \<and> get (cd_storeName cd) k d' = Inr (Some e)
     \<and> getField e ''synced'' = JBool True
     \<and> (\<forall>f. f \<noteq> ''synced'' \<longrightarrow> getField e f = getField r f)"
proof -
  let ?e = "setField ''synced'' (JBool True) r"
  let ?d = "d\<lparr>stores := (stores d)(cd_storeName cd \<mapsto> store_put k ?e rs),
               conflicts := store_delete cid (conflicts d)\<rparr>"
  from resolveConflict_use_remote [OF assms(3,4,2,5), of t1 t2] assms(1)
  have "resolveStoredConflict cid res t1 t2 d = Inr ?d"
    by (simp add: resolveStoredConflict_def)
  moreover have "store_get cid (conflicts ?d) = None"
    by (simp add: store_get_delete)
  moreover have "get (cd_storeName cd) k ?d = Inr (Some ?e)"
    by (simp add: get_def store_get_put)
  ultimately show ?thesis
    by (auto simp: getField_setField)
qed

text \<open>
  \<open>merge\<close> reads both sides and stores under the local key, which the rules must
  leave alone.
\<close>

lemma resolveStoredConflict_merge_clears:
  assumes "store_get cid (conflicts d) = Some cd"
    and "stores d (cd_storeName cd) = Some rs"
    and "strategy res = ''merge''"
    and "c_local (cd_conflict cd) = Some l" and "c_remote (cd_conflict cd) = Some r"
    and "key_of (cd_storeName cd) l = Some k"
    and "keyPath (cd_storeName cd) \<notin> fst ` set (entries (mergeRules res))"
  shows "\<exists>d'. resolveStoredConflict cid res t1 t2 d = Inr d'
     \<and> store_get cid (conflicts d') = None"
proof -
  from resolveConflict_merge [OF assms(3,4,5,2,6,7), of t1 t2]
  obtain d1 where "resolveConflict (cd_storeName cd) (cd_conflict cd) res t1 t2 d = Inr d1"
    by blast
  with assms(1) show ?thesis
    by (simp add: resolveStoredConflict_def store_get_delete)
qed

text \<open>
  \<open>manual\<close> is the one strategy under which \<open>resolveConflict\<close> writes to
  \<open>conflicts\<close>: it changes no collection of entities and not the queue, and stores the
  pair as a new Conflict Record \<open>conflict-<t1>\<close> when that id is free.
\<close>

lemma resolveConflict_manual:
  assumes "strategy res = ''manual''"
  shows "\<exists>d'. resolveConflict c cf res t1 t2 d = Inr d'
     \<and> stores d' = stores d \<and> syncQueue d' = syncQueue d
     \<and> (store_get (''conflict-'' @ show_nat t1) (conflicts d) = None
          \<longrightarrow> store_get (''conflict-'' @ show_nat t1) (conflicts d')
                = Some \<lparr>cd_id = ''conflict-'' @ show_nat t1, cd_storeName = c,
                         cd_conflict = cf, cd_timestamp = t2\<rparr>)"
proof -
  from assms have "resolveConflict c cf res t1 t2 d = Inr (storeConflict c cf t1 t2 d)"
    by (simp add: resolveConflict_def)
  then show ?thesis
    using storeConflict_fresh by (simp add: storeConflict_stores)
qed

text \<open>
  \<open>resolveStoredConflict\<close> with \<open>manual\<close> stores no entity and deletes the record it
  was called on, as it does after every strategy.
\<close>

lemma resolveStoredConflict_manual:
  assumes "store_get cid (conflicts d) = Some cd" and "strategy res = ''manual''"
  shows "\<exists>d'. resolveStoredConflict cid res t1 t2 d = Inr d'
     \<and> stores d' = stores d \<and> store_get cid (conflicts d') = None"
proof -
  from assms(2)
  have "resolveConflict (cd_storeName cd) (cd_conflict cd) res t1 t2 d
      = Inr (storeConflict (cd_storeName cd) (cd_conflict cd) t1 t2 d)"
    by (simp add: resolveConflict_def)
  with assms(1) show ?thesis
    by (simp add: resolveStoredConflict_def storeConflict_stores store_get_delete)
qed

lemma show_nat_1000: "show_nat 1000 = ''1000''"
  by code_simp

lemma ex_conflict_db_record:
  "store_get ''conflict-1000'' (conflicts ex_conflict_db)
     = Some \<lparr>cd_id = ''conflict-1000'', cd_storeName = ''courses'',
              cd_conflict = ex_conflict, cd_timestamp = 1000\<rparr>"
  by (simp add: ex_conflict_db_def storeConflict_def Let_def store_add_def store_get_def
        ex_db_def init_def show_nat_1000)

lemma ex_conflict_db_stores:
  "stores ex_conflict_db ''courses'' = Some [(''course-1'', ex_local)]"
  by (simp add: ex_conflict_db_def storeConflict_stores ex_db_courses)

text \<open>
  The scenario of the spec: \<open>use_remote\<close> on the stored conflict of \<open>course-1\<close> sets
  the local par to the remote value and removes the Conflict Record.
\<close>

lemma resolveStoredConflict_use_remote_example:
  "\<exists>d' e. resolveStoredConflict ''conflict-1000''
              \<lparr>strategy = ''use_remote'', mergeRules = None\<rparr> 2000 2000 ex_conflict_db
            = Inr d'
      \<and> store_get ''conflict-1000'' (conflicts d') = None
      \<and> get ''courses'' ''course-1'' d' = Inr (Some e)
      \<and> getField e ''synced'' = JBool True
      \<and> getField e ''par'' = JNum 71"
proof -
  let ?cd = "\<lparr>cd_id = ''conflict-1000'', cd_storeName = ''courses'',
              cd_conflict = ex_conflict, cd_timestamp = 1000\<rparr>"
  let ?res = "\<lparr>strategy = ''use_remote'', mergeRules = None\<rparr>"
  have s: "stores ex_conflict_db (cd_storeName ?cd) = Some [(''course-1'', ex_local)]"
    by (simp add: ex_conflict_db_stores)
  have st: "strategy ?res = ''use_remote''" by simp
  have r: "c_remote (cd_conflict ?cd) = Some ex_remote"
    by (simp add: ex_conflict_def mkConflict_def)
  have kr: "key_of (cd_storeName ?cd) ex_remote = Some ''course-1''"
    by (simp add: key_of_def keyPath_def ex_remote_def getField_def)
  have p: "getField ex_remote ''par'' = JNum 71"
    by (simp add: ex_remote_def getField_def)
  from resolveStoredConflict_use_remote_clears [OF ex_conflict_db_record s st r kr, of 2000 2000]
  obtain d' e where
    a: "resolveStoredConflict ''conflict-1000'' ?res 2000 2000 ex_conflict_db = Inr d'"
      "store_get ''conflict-1000'' (conflicts d') = None"
      "get ''courses'' ''course-1'' d' = Inr (Some e)"
      "getField e ''synced'' = JBool True"
      "\<forall>f. f \<noteq> ''synced'' \<longrightarrow> getField e f = getField ex_remote f"
    by auto
  from a(5) p have "getField e ''par'' = JNum 71" by simp
  with a show ?thesis by blast
qed

text \<open>
  C5. Resolving a stored Conflict Record with \<open>use_local\<close>, \<open>use_remote\<close> or
  \<open>merge\<close> is to remove the record. It does not for a record with no local side
  (\<open>server_only\<close>, as \<open>detectConflicts\<close> builds it) under \<open>use_local\<close>: the
  object \<open>{...null, lastModified, synced}\<close> has no \<open>id\<close>, the \<open>put\<close> throws
  \<open>DataError\<close>, the \<open>delete\<close> that follows it in \<open>resolveStoredConflict\<close> is not
  reached, and the database, the Conflict Record \<open>conflict-1000\<close> in it, is as it was.
\<close>

theorem resolveStoredConflict_use_local_server_only:
  "store_get ''conflict-1000'' (conflicts server_only_db)
     = Some \<lparr>cd_id = ''conflict-1000'', cd_storeName = ''courses'',
              cd_conflict = mkConflict ''server_only'' None (Some ex_remote),
              cd_timestamp = 1000\<rparr>
   \<and> resolveStoredConflict ''conflict-1000'' \<lparr>strategy = ''use_local'', mergeRules = None\<rparr>
        2000 2000 server_only_db = Inl DataError"
  by (simp add: server_only_db_def storeConflict_def Let_def store_add_def store_get_def
        init_def show_nat_1000 resolveStoredConflict_def resolveConflict_def
        mkConflict_def spread_def put_def key_of_def keyPath_def getField_def)

section \<open>The queue and the synchronisation pass\<close>


lemma q_id_attempt [simp]: "q_id (attempt proc item) = q_id item"
  by (simp add: attempt_def split: sum.splits)

lemma store_put_keys:
  "set (map fst (store_put k v rs)) = insert k (set (map fst rs))"
  by (induction rs) (force split: if_splits)+

lemma store_put_sorted:
  "sorted (map fst rs) \<Longrightarrow> sorted (map fst (store_put k v rs))"
proof (induction rs)
  case Nil
  then show ?case by simp
next
  case (Cons r rs)
  obtain k' v' where r: "r = (k', v')" by (cases r)
  from Cons.prems r have s: "sorted (map fst rs)" and le: "\<forall>x \<in> set (map fst rs). k' \<le> x"
    by auto
  show ?case
  proof (cases "k < k'")
    case True
    with r Cons.prems le show ?thesis by auto
  next
    case False
    show ?thesis
    proof (cases "k = k'")
      case True
      with r Cons.prems show ?thesis by auto
    next
      case ne: False
      with False have "k' \<le> k" by simp
      with le have "\<forall>x \<in> set (map fst (store_put k v rs)). k' \<le> x"
        by (simp only: store_put_keys) auto
      with Cons.IH [OF s] r False ne show ?thesis by auto
    qed
  qed
qed

lemma store_put_distinct:
  "sorted (map fst rs) \<Longrightarrow> distinct (map fst rs) \<Longrightarrow> distinct (map fst (store_put k v rs))"
proof (induction rs)
  case Nil
  then show ?case by simp
next
  case (Cons r rs)
  obtain k' v' where r: "r = (k', v')" by (cases r)
  from Cons.prems r have s: "sorted (map fst rs)" and d: "distinct (map fst rs)"
    and le: "\<forall>x \<in> set (map fst rs). k' \<le> x" and n: "k' \<notin> set (map fst rs)"
    by auto
  show ?case
  proof (cases "k < k'")
    case True
    then have "k \<notin> set (map fst rs)" using le by auto
    with True r d n show ?thesis by auto
  next
    case False
    show ?thesis
    proof (cases "k = k'")
      case True
      with r d n show ?thesis by auto
    next
      case ne: False
      have "k' \<notin> set (map fst (store_put k v rs))"
        using n ne by (simp only: store_put_keys) auto
      with Cons.IH [OF s d] r False ne show ?thesis by auto
    qed
  qed
qed

lemma store_put_records:
  "set (store_put k v rs) \<subseteq> insert (k, v) (set rs)"
  by (induction rs) (auto split: if_splits)

lemma wf_queue_put:
  assumes "wf_queue rs" and "q_id v = k"
  shows "wf_queue (store_put k v rs)"
proof -
  from assms(1) have s: "sorted (map fst rs)" and d: "distinct (map fst rs)"
    and i: "\<forall>r \<in> set rs. q_id (snd r) = fst r"
    by (simp_all add: wf_queue_def)
  have "\<forall>r \<in> set (store_put k v rs). q_id (snd r) = fst r"
    using store_put_records [of k v rs] i assms(2) by auto
  with store_put_sorted [OF s] store_put_distinct [OF s d] show ?thesis
    by (simp add: wf_queue_def)
qed

text \<open>
  The queue is well-formed when the database is created, and every operation on it
  keeps it so.
\<close>

lemma wf_queue_empty: "wf_queue []"
  by (simp add: wf_queue_def)

lemma wf_queue_addToSyncQueue:
  "wf_queue (syncQueue d) \<Longrightarrow> wf_queue (syncQueue (addToSyncQueue c op x t1 rnd t2 d))"
  by (auto simp: addToSyncQueue_def Let_def store_add_def wf_queue_put
           split: option.splits)

lemma wf_queue_markSyncItemComplete:
  "wf_queue (syncQueue d) \<Longrightarrow> wf_queue (syncQueue (markSyncItemComplete k d))"
  by (auto simp: markSyncItemComplete_def Let_def wf_queue_put split: option.splits)

lemma wf_queue_retrySyncItem:
  "wf_queue (syncQueue d) \<Longrightarrow> wf_queue (syncQueue (retrySyncItem k d))"
  by (auto simp: retrySyncItem_def Let_def wf_queue_put split: option.splits)

lemma wf_queue_removeFromSyncQueue:
  "wf_queue (syncQueue d) \<Longrightarrow> wf_queue (syncQueue (removeFromSyncQueue k d))"
  by (auto simp: removeFromSyncQueue_def store_delete_def wf_queue_def sorted_filter
        distinct_map_filter)

text \<open>On a well-formed store, put under a key that is there replaces the record in place.\<close>

lemma store_put_replace:
  assumes "sorted (map fst rs)" and "distinct (map fst rs)" and "store_get k rs = Some old"
  shows "store_put k v rs = map (\<lambda>r. if fst r = k then (k, v) else r) rs"
  using assms
proof (induction rs)
  case Nil
  then show ?case by (simp add: store_get_def)
next
  case (Cons r rs)
  obtain k' v' where r: "r = (k', v')" by (cases r)
  from Cons.prems r have s: "sorted (map fst rs)" and d: "distinct (map fst rs)"
    and le: "\<forall>x \<in> set (map fst rs). k' \<le> x" and n: "k' \<notin> set (map fst rs)"
    by auto
  show ?case
  proof (cases "k = k'")
    case True
    from n True have "map (\<lambda>r. if fst r = k then (k, v) else r) rs = rs"
      by (induction rs) auto
    with True r show ?thesis by simp
  next
    case False
    with Cons.prems(3) r have g: "store_get k rs = Some old"
      by (simp add: store_get_def)
    then have "k \<in> set (map fst rs)"
      by (metis store_get_def map_of_SomeD image_eqI fst_conv set_map)
    with le have "k' \<le> k" by auto
    with False have "\<not> k < k'" by simp
    with Cons.IH [OF s d g] r False show ?thesis by simp
  qed
qed

lemma attempt_step:
  assumes "wf_queue (syncQueue d)" and "store_get (q_id item) (syncQueue d) = Some item"
  shows "(case proc item of
            Inr u \<Rightarrow> markSyncItemComplete (q_id item) d
          | Inl e \<Rightarrow> retrySyncItem (q_id item) d)
         = d\<lparr>syncQueue := map (\<lambda>r. if fst r = q_id item then (q_id item, attempt proc item) else r)
                               (syncQueue d)\<rparr>"
proof -
  from assms(1) have s: "sorted (map fst (syncQueue d))" and t: "distinct (map fst (syncQueue d))"
    by (simp_all add: wf_queue_def)
  show ?thesis
    using store_put_replace [OF s t assms(2)] assms(2)
    by (simp add: markSyncItemComplete_def retrySyncItem_def attempt_def Let_def
             split: sum.splits)
qed


lemma wf_queue_replace:
  assumes "wf_queue rs" and "q_id v = k"
  shows "wf_queue (map (\<lambda>r. if fst r = k then (k, v) else r) rs)"
proof -
  have m: "map fst (map (\<lambda>r. if fst r = k then (k, v) else r) rs) = map fst rs"
    by (induction rs) auto
  from assms show ?thesis unfolding wf_queue_def m by auto
qed

lemma store_get_replace:
  "store_get k' (map (\<lambda>r. if fst r = k then (k, v) else r) rs)
     = (if k' = k then (case store_get k rs of None \<Rightarrow> None | Some old \<Rightarrow> Some v)
        else store_get k' rs)"
  by (induction rs) (auto simp: store_get_def)

lemma wf_queue_stored:
  "wf_queue rs \<Longrightarrow> r \<in> set rs \<Longrightarrow> store_get (fst r) rs = Some (snd r)"
  by (simp add: wf_queue_def store_get_def)

lemma syncLoop_queue:
  assumes "wf_queue (syncQueue d)" and "distinct (map q_id items)"
    and "\<forall>item \<in> set items. store_get (q_id item) (syncQueue d) = Some item"
  shows "syncLoop proc items d
     = d\<lparr>syncQueue := map (\<lambda>r. if fst r \<in> q_id ` set items
                                  then (fst r, attempt proc (snd r)) else r) (syncQueue d)\<rparr>"
  using assms
proof (induction items arbitrary: d)
  case Nil
  then show ?case by simp
next
  case (Cons item items)
  let ?k = "q_id item"
  let ?q1 = "map (\<lambda>r. if fst r = ?k then (?k, attempt proc item) else r) (syncQueue d)"
  let ?d1 = "d\<lparr>syncQueue := ?q1\<rparr>"
  from Cons.prems have g: "store_get ?k (syncQueue d) = Some item" by simp
  have step: "(case proc item of Inr u \<Rightarrow> markSyncItemComplete ?k d
                | Inl e \<Rightarrow> retrySyncItem ?k d) = ?d1"
    using attempt_step [OF Cons.prems(1) g] .
  have w1: "wf_queue (syncQueue ?d1)"
    using wf_queue_replace [OF Cons.prems(1), of "attempt proc item" ?k] by simp
  from Cons.prems(2) have dist: "distinct (map q_id items)" and nk: "?k \<notin> q_id ` set items"
    by auto
  from nk have nk': "\<forall>i \<in> set items. q_id i \<noteq> ?k"
    by (metis imageI)
  have st: "\<forall>i \<in> set items. store_get (q_id i) (syncQueue ?d1) = Some i"
  proof
    fix i assume i: "i \<in> set items"
    with nk' have "q_id i \<noteq> ?k" by blast
    with i Cons.prems(3) show "store_get (q_id i) (syncQueue ?d1) = Some i"
      by (simp add: store_get_replace)
  qed
  have eq: "map (\<lambda>r. if fst r \<in> q_id ` set items then (fst r, attempt proc (snd r)) else r) ?q1
      = map (\<lambda>r. if fst r \<in> q_id ` set (item # items)
                   then (fst r, attempt proc (snd r)) else r) (syncQueue d)"
  proof -
    have "\<And>r. r \<in> set (syncQueue d) \<Longrightarrow>
        (\<lambda>r. if fst r \<in> q_id ` set items then (fst r, attempt proc (snd r)) else r)
          (if fst r = ?k then (?k, attempt proc item) else r)
        = (if fst r \<in> q_id ` set (item # items) then (fst r, attempt proc (snd r)) else r)"
    proof -
      fix r assume r: "r \<in> set (syncQueue d)"
      show "(\<lambda>r. if fst r \<in> q_id ` set items then (fst r, attempt proc (snd r)) else r)
          (if fst r = ?k then (?k, attempt proc item) else r)
        = (if fst r \<in> q_id ` set (item # items) then (fst r, attempt proc (snd r)) else r)"
      proof (cases "fst r = ?k")
        case True
        from wf_queue_stored [OF Cons.prems(1) r] True g have "snd r = item" by simp
        with True nk show ?thesis by simp
      next
        case False
        then show ?thesis by auto
      qed
    qed
    then show ?thesis by (simp add: comp_def)
  qed
  have "syncLoop proc (item # items) d = syncLoop proc items ?d1"
    using step by simp
  also have "\<dots> = ?d1\<lparr>syncQueue := map (\<lambda>r. if fst r \<in> q_id ` set items
                                  then (fst r, attempt proc (snd r)) else r) (syncQueue ?d1)\<rparr>"
    using Cons.IH [OF w1 dist st] .
  finally show ?case using eq by simp
qed

lemma wf_queue_ids: "wf_queue rs \<Longrightarrow> map q_id (map snd rs) = map fst rs"
  by (induction rs) (auto simp: wf_queue_def)

text \<open>The whole pass over a well-formed queue.\<close>

lemma syncLoop_all:
  assumes "wf_queue (syncQueue d)"
  shows "syncLoop proc (getSyncQueue d) d
     = d\<lparr>syncQueue := map (\<lambda>r. (fst r, attempt proc (snd r))) (syncQueue d)\<rparr>"
proof -
  have ids: "map q_id (getSyncQueue d) = map fst (syncQueue d)"
    using wf_queue_ids [OF assms] by (simp add: getSyncQueue_def store_getAll_def)
  with assms have dist: "distinct (map q_id (getSyncQueue d))"
    by (simp add: wf_queue_def)
  have st: "\<forall>item \<in> set (getSyncQueue d). store_get (q_id item) (syncQueue d) = Some item"
  proof
    fix item assume "item \<in> set (getSyncQueue d)"
    then obtain r where r: "r \<in> set (syncQueue d)" and i: "item = snd r"
      by (auto simp: getSyncQueue_def store_getAll_def)
    from assms r have "q_id (snd r) = fst r" by (simp add: wf_queue_def)
    with wf_queue_stored [OF assms r] i
    show "store_get (q_id item) (syncQueue d) = Some item" by simp
  qed
  have "\<And>r. r \<in> set (syncQueue d) \<Longrightarrow> fst r \<in> q_id ` set (getSyncQueue d)"
  proof -
    fix r assume "r \<in> set (syncQueue d)"
    then have "fst r \<in> set (map fst (syncQueue d))" by simp
    with ids show "fst r \<in> q_id ` set (getSyncQueue d)" by (metis set_map)
  qed
  then have "map (\<lambda>r. if fst r \<in> q_id ` set (getSyncQueue d)
                       then (fst r, attempt proc (snd r)) else r) (syncQueue d)
      = map (\<lambda>r. (fst r, attempt proc (snd r))) (syncQueue d)"
    by simp
  with syncLoop_queue [OF assms dist st, of proc] show ?thesis by simp
qed

lemma store_get_map:
  "store_get k (map (\<lambda>r. (fst r, f (snd r))) rs) = map_option f (store_get k rs)"
  by (induction rs) (auto simp: store_get_def)

text \<open>
  C6. In a pass over a well-formed queue (the hook online, with its database), an item
  whose push fails ends with its retry count one higher and status \<open>pending\<close>, so the
  next read of the queue yields it again; and the pass goes on: every item of the queue
  ends as \<open>attempt\<close> says, \<open>completed\<close> if its own push succeeded, retried if not,
  whatever happened to the items before it.
\<close>

theorem performSync_failed_item:
  assumes "db_handle s = Some d" and "isOnline s" and "wf_queue (syncQueue d)"
    and "store_get k (syncQueue d) = Some item" and "proc item = Inl e"
  shows "\<exists>d'. db_handle (performSync proc s) = Some d'
     \<and> store_get k (syncQueue d')
         = Some (item\<lparr>q_retries := q_retries item + 1, q_status := ''pending''\<rparr>)
     \<and> item\<lparr>q_retries := q_retries item + 1, q_status := ''pending''\<rparr> \<in> set (getSyncQueue d')
     \<and> (\<forall>k' j. store_get k' (syncQueue d) = Some j
            \<longrightarrow> store_get k' (syncQueue d') = Some (attempt proc j))"
proof -
  let ?d' = "d\<lparr>syncQueue := map (\<lambda>r. (fst r, attempt proc (snd r))) (syncQueue d)\<rparr>"
  have h: "db_handle (performSync proc s) = Some ?d'"
    using assms(1,2) syncLoop_all [OF assms(3), of proc]
    by (simp add: performSync_def checkForConflicts_def)
  have a: "attempt proc item = item\<lparr>q_retries := q_retries item + 1, q_status := ''pending''\<rparr>"
    using assms(5) by (simp add: attempt_def)
  have all: "\<forall>k' j. store_get k' (syncQueue d) = Some j
            \<longrightarrow> store_get k' (syncQueue ?d') = Some (attempt proc j)"
    by (simp add: store_get_map)
  with assms(4) a have g: "store_get k (syncQueue ?d')
         = Some (item\<lparr>q_retries := q_retries item + 1, q_status := ''pending''\<rparr>)"
    by simp
  then have "(k, item\<lparr>q_retries := q_retries item + 1, q_status := ''pending''\<rparr>)
      \<in> set (syncQueue ?d')"
    unfolding store_get_def by (rule map_of_SomeD)
  then have "item\<lparr>q_retries := q_retries item + 1, q_status := ''pending''\<rparr>
      \<in> set (getSyncQueue ?d')"
    by (force simp: getSyncQueue_def store_getAll_def)
  with h g all show ?thesis by blast
qed

text \<open>
  C3, as amended. Reading the queue yields every item stored in it, whatever its
  status, in ascending order of id, each id once. That is the order of the keys of the
  store; the timestamps of the items need not ascend along it.
\<close>

theorem getSyncQueue_yields_all:
  assumes "wf_queue (syncQueue d)"
  shows "set (getSyncQueue d) = {item. store_get (q_id item) (syncQueue d) = Some item}
     \<and> sorted (map q_id (getSyncQueue d)) \<and> distinct (map q_id (getSyncQueue d))"
proof -
  have ids: "map q_id (getSyncQueue d) = map fst (syncQueue d)"
    using wf_queue_ids [OF assms] by (simp add: getSyncQueue_def store_getAll_def)
  have "set (getSyncQueue d) = {item. store_get (q_id item) (syncQueue d) = Some item}"
  proof (intro set_eqI iffI)
    fix item assume "item \<in> set (getSyncQueue d)"
    then obtain r where r: "r \<in> set (syncQueue d)" and i: "item = snd r"
      by (auto simp: getSyncQueue_def store_getAll_def)
    from assms r have "q_id (snd r) = fst r" by (simp add: wf_queue_def)
    with wf_queue_stored [OF assms r] i
    show "item \<in> {item. store_get (q_id item) (syncQueue d) = Some item}" by simp
  next
    fix item assume "item \<in> {item. store_get (q_id item) (syncQueue d) = Some item}"
    then have "store_get (q_id item) (syncQueue d) = Some item" by simp
    then have "(q_id item, item) \<in> set (syncQueue d)"
      unfolding store_get_def by (rule map_of_SomeD)
    then show "item \<in> set (getSyncQueue d)"
      by (force simp: getSyncQueue_def store_getAll_def)
  qed
  with ids assms show ?thesis by (simp add: wf_queue_def)
qed

text \<open>
  C4, as amended. \<open>performSync\<close> returns at once, changing nothing, when there is no
  database handle or the hook is offline. It does not read the sync status: called
  online in state \<open>syncing\<close> it runs the same pass over the queue as in any other
  state and ends in state \<open>idle\<close>.
\<close>

theorem performSync_ignores_status:
  "(db_handle s = None \<or> \<not> isOnline s \<longrightarrow> performSync proc s = s)
   \<and> (\<forall>d. db_handle s = Some d \<and> isOnline s \<longrightarrow>
         performSync proc (s\<lparr>syncStatus := S_syncing\<rparr>) = performSync proc s
         \<and> db_handle (performSync proc s) = Some (syncLoop proc (getSyncQueue d) d)
         \<and> syncStatus (performSync proc s) = S_idle)"
  by (auto simp: performSync_def checkForConflicts_def split: option.splits)

lemma show_nat_2000: "show_nat 2000 = ''2000''"
  by code_simp

lemma ex_queue_db_queue: "syncQueue ex_queue_db = [(''sync-1000-0.25'', ex_item)]"
  by (simp add: ex_queue_db_def addToSyncQueue_def Let_def store_add_def store_get_def
        init_def show_nat_1000 ex_item_def)

lemma ex_queue_db2_get:
  "store_get ''sync-1000-0.25'' (syncQueue ex_queue_db2) = Some ex_item"
  "store_get ''sync-2000-0.75'' (syncQueue ex_queue_db2) = Some ex_item2"
  by (simp_all add: ex_queue_db2_def addToSyncQueue_def Let_def store_add_def store_get_def
        ex_queue_db_queue show_nat_2000 ex_item2_def less_list_code less_char_def)

lemma wf_ex_queue_db2: "wf_queue (syncQueue ex_queue_db2)"
  unfolding ex_queue_db2_def ex_queue_db_def
  by (intro wf_queue_addToSyncQueue) (simp add: init_def wf_queue_empty)

theorem performSync_failed_item_witness:
  "db_handle online_hook = Some ex_queue_db2 \<and> isOnline online_hook
   \<and> wf_queue (syncQueue ex_queue_db2)
   \<and> store_get ''sync-1000-0.25'' (syncQueue ex_queue_db2) = Some ex_item
   \<and> fail_first ex_item = Inl (Error ''Network error'')
   \<and> (\<exists>d'. db_handle (performSync fail_first online_hook) = Some d'
        \<and> store_get ''sync-1000-0.25'' (syncQueue d')
            = Some (ex_item\<lparr>q_retries := 1, q_status := ''pending''\<rparr>)
        \<and> store_get ''sync-2000-0.75'' (syncQueue d')
            = Some (ex_item2\<lparr>q_status := ''completed''\<rparr>))"
proof -
  have h: "db_handle online_hook = Some ex_queue_db2" and o: "isOnline online_hook"
    by (simp_all add: online_hook_def)
  have f: "fail_first ex_item = Inl (Error ''Network error'')"
    by (simp add: fail_first_def ex_item_def)
  have r: "q_retries ex_item + 1 = 1" by (simp add: ex_item_def)
  have a2: "attempt fail_first ex_item2 = ex_item2\<lparr>q_status := ''completed''\<rparr>"
    by (simp add: attempt_def fail_first_def ex_item2_def)
  from performSync_failed_item [where proc = fail_first, OF h o wf_ex_queue_db2 ex_queue_db2_get(1) f]
  obtain d' where "db_handle (performSync fail_first online_hook) = Some d'"
    and "store_get ''sync-1000-0.25'' (syncQueue d')
         = Some (ex_item\<lparr>q_retries := q_retries ex_item + 1, q_status := ''pending''\<rparr>)"
    and "\<forall>k' j. store_get k' (syncQueue ex_queue_db2) = Some j
            \<longrightarrow> store_get k' (syncQueue d') = Some (attempt fail_first j)"
    by blast
  with ex_queue_db2_get(2) a2 r
  have "\<exists>d'. db_handle (performSync fail_first online_hook) = Some d'
        \<and> store_get ''sync-1000-0.25'' (syncQueue d')
            = Some (ex_item\<lparr>q_retries := 1, q_status := ''pending''\<rparr>)
        \<and> store_get ''sync-2000-0.75'' (syncQueue d')
            = Some (ex_item2\<lparr>q_status := ''completed''\<rparr>)"
    by auto
  with h o wf_ex_queue_db2 ex_queue_db2_get(1) f show ?thesis by simp
qed

theorem getSyncQueue_yields_all_witness:
  "wf_queue (syncQueue ex_queue_db2)
   \<and> set (getSyncQueue ex_queue_db2)
       = {item. store_get (q_id item) (syncQueue ex_queue_db2) = Some item}
   \<and> sorted (map q_id (getSyncQueue ex_queue_db2))
   \<and> distinct (map q_id (getSyncQueue ex_queue_db2))"
  using getSyncQueue_yields_all [OF wf_ex_queue_db2] wf_ex_queue_db2 by simp

text \<open>
  C3 as stated fails on both counts. The first of the two mutations of millisecond 1000
  is marked complete; reading the queue still yields it, with status \<open>completed\<close>,
  and yields it after the second one, whose timestamp 1001 is the later one: the order
  is that of the ids, \<open>sync-1000-0.25\<close> before \<open>sync-1000-0.75\<close>.
\<close>

theorem getSyncQueue_completed_out_of_order:
  "getSyncQueue (markSyncItemComplete ''sync-1000-0.75'' tie_db)
     = [tie_item2, tie_item1\<lparr>q_status := ''completed''\<rparr>]
   \<and> q_status (tie_item1\<lparr>q_status := ''completed''\<rparr>) \<noteq> ''pending''
   \<and> map q_timestamp (getSyncQueue (markSyncItemComplete ''sync-1000-0.75'' tie_db))
       = [1001, 1000]
   \<and> \<not> sorted (map q_timestamp (getSyncQueue (markSyncItemComplete ''sync-1000-0.75'' tie_db)))"
proof -
  have q: "syncQueue tie_db
      = [(''sync-1000-0.25'', tie_item2), (''sync-1000-0.75'', tie_item1)]"
    by (simp add: tie_db_def addToSyncQueue_def Let_def store_add_def store_get_def
          init_def show_nat_1000 tie_item1_def tie_item2_def less_list_code less_char_def)
  have g: "getSyncQueue (markSyncItemComplete ''sync-1000-0.75'' tie_db)
      = [tie_item2, tie_item1\<lparr>q_status := ''completed''\<rparr>]"
    by (simp add: getSyncQueue_def store_getAll_def markSyncItemComplete_def Let_def q
          store_get_def tie_item1_def tie_item2_def less_list_code less_char_def)
  show ?thesis
    unfolding g by (simp add: tie_item1_def tie_item2_def)
qed

theorem performSync_ignores_status_witness:
  "db_handle syncing_hook = Some ex_queue_db \<and> isOnline syncing_hook
   \<and> performSync processSyncItem (syncing_hook\<lparr>syncStatus := S_syncing\<rparr>)
       = performSync processSyncItem syncing_hook
   \<and> syncStatus (performSync processSyncItem syncing_hook) = S_idle"
proof -
  have h: "db_handle syncing_hook = Some ex_queue_db" and o: "isOnline syncing_hook"
    by (simp_all add: syncing_hook_def)
  with performSync_ignores_status [of syncing_hook processSyncItem] show ?thesis by simp
qed

text \<open>
  C4 as stated fails: a trigger that arrives in state \<open>syncing\<close> is no no-op. With the
  processor of the source, \<open>performSync\<close> on \<open>syncing_hook\<close> processes the queue (the
  item ends \<open>completed\<close>) and changes the state.
\<close>

theorem performSync_while_syncing:
  "syncStatus syncing_hook = S_syncing
   \<and> performSync processSyncItem syncing_hook \<noteq> syncing_hook
   \<and> map_option getSyncQueue (db_handle (performSync processSyncItem syncing_hook))
       = Some [ex_item\<lparr>q_status := ''completed''\<rparr>]"
proof -
  have q: "map_option getSyncQueue (db_handle (performSync processSyncItem syncing_hook))
       = Some [ex_item\<lparr>q_status := ''completed''\<rparr>]"
    by (simp add: performSync_def syncing_hook_def checkForConflicts_def getSyncQueue_def
          store_getAll_def ex_queue_db_queue processSyncItem_def markSyncItemComplete_def
          Let_def store_get_def ex_item_def)
  have "syncStatus (performSync processSyncItem syncing_hook) = S_idle"
    by (simp add: performSync_def syncing_hook_def checkForConflicts_def)
  then have "performSync processSyncItem syncing_hook \<noteq> syncing_hook"
    by (auto simp: syncing_hook_def)
  with q show ?thesis by (simp add: syncing_hook_def)
qed

section \<open>Export, clear, import\<close>


lemma getField_storedFields:
  "getField e k \<noteq> JUndefined \<Longrightarrow> getField (storedFields e) k = reparse (getField e k)"
proof (induction e)
  case Nil
  then show ?case by (simp add: getField_def)
next
  case (Cons a e)
  obtain k' v where a: "a = (k', v)" by (cases a)
  show ?case
  proof (cases "k' = k")
    case True
    with Cons.prems a have "v \<noteq> JUndefined" by (simp add: getField_def)
    with True a show ?thesis by (simp add: getField_def storedFields_def)
  next
    case False
    with Cons.prems a have "getField e k \<noteq> JUndefined" by (simp add: getField_def)
    from Cons.IH [OF this] False a show ?thesis
      by (simp add: getField_def storedFields_def)
  qed
qed

lemma truthy_reparse: "truthy v \<Longrightarrow> truthy (reparse v)"
  by (cases v) auto

lemma isNumber_reparse: "isNumber v \<Longrightarrow> reparse v = v"
  by (cases v) auto

lemma truthy_stored: "truthy (getField e k) \<Longrightarrow> truthy (getField (storedFields e) k)"
proof -
  assume t: "truthy (getField e k)"
  then have "getField e k \<noteq> JUndefined" by auto
  from getField_storedFields [OF this] t show ?thesis by (simp add: truthy_reparse)
qed

lemma isNumber_stored: "isNumber (getField e k) \<Longrightarrow> isNumber (getField (storedFields e) k)"
proof -
  assume t: "isNumber (getField e k)"
  then have "getField e k \<noteq> JUndefined" by auto
  from getField_storedFields [OF this] t show ?thesis by (simp add: isNumber_reparse)
qed

lemma key_of_SomeD: "key_of c e = Some k \<Longrightarrow> getField e (keyPath c) = JStr k"
  by (auto simp: key_of_def split: jsval.splits)

lemma key_of_stored: "key_of c e = Some k \<Longrightarrow> key_of c (storedFields e) = Some k"
proof -
  assume a: "key_of c e = Some k"
  then have g: "getField e (keyPath c) = JStr k"
    by (rule key_of_SomeD)
  then have "getField e (keyPath c) \<noteq> JUndefined" by simp
  from getField_storedFields [OF this] g show ?thesis by (simp add: key_of_def)
qed

lemma checkCourse_ok: "importable_course e \<Longrightarrow> checkCourse (JObj (storedFields e)) = None"
  by (simp add: importable_course_def checkCourse_def truthy_stored)

lemma checkRound_ok: "importable_round e \<Longrightarrow> checkRound (JObj (storedFields e)) = None"
  by (simp add: importable_round_def checkRound_def truthy_stored isNumber_stored)

lemma checkHole_ok: "importable_hole e \<Longrightarrow> checkHole (JObj (storedFields e)) = None"
  by (simp add: importable_hole_def checkHole_def truthy_stored isNumber_stored)

lemma checkAll_ok: "\<forall>x \<in> set xs. chk x = None \<Longrightarrow> checkAll chk xs = None"
  by (induction xs) auto

lemma stores_upd_same:
  assumes "stores d c = Some q"
  shows "d\<lparr>stores := (stores d)(c \<mapsto> q)\<rparr> = d"
proof -
  from assms have "(stores d)(c \<mapsto> q) = stores d" by (rule map_upd_triv)
  then show ?thesis by simp
qed


lemma deleteAll_filter:
  assumes "stores d c = Some q"
    and "\<forall>e \<in> set es. \<exists>k. getField e ''id'' = JStr k"
  shows "deleteAll c es d
     = (None, d\<lparr>stores := (stores d)(c \<mapsto> filter (\<lambda>r. JStr (fst r) \<notin> ids es) q)\<rparr>)"
  using assms
proof (induction es arbitrary: d q)
  case Nil
  have f: "filter (\<lambda>r. JStr (fst r) \<notin> ids []) q = q" by (simp add: ids_def)
  show ?case by (simp only: deleteAll.simps f stores_upd_same [OF Nil.prems(1)])
next
  case (Cons e es)
  then obtain k where k: "getField e ''id'' = JStr k" by auto
  let ?d1 = "d\<lparr>stores := (stores d)(c \<mapsto> store_delete k q)\<rparr>"
  from Cons.prems(1) k have del: "delete c (getField e ''id'') d = Inr ?d1"
    by (simp add: delete_def)
  have s1: "stores ?d1 c = Some (store_delete k q)" by simp
  from Cons.prems(2) have r: "\<forall>e \<in> set es. \<exists>k. getField e ''id'' = JStr k" by simp
  have f: "filter (\<lambda>r. JStr (fst r) \<notin> ids es) (store_delete k q)
      = filter (\<lambda>r. JStr (fst r) \<notin> ids (e # es)) q"
    using k by (auto simp: store_delete_def ids_def intro: filter_cong)
  have u: "?d1\<lparr>stores := (stores ?d1)(c \<mapsto> filter (\<lambda>r. JStr (fst r) \<notin> ids (e # es)) q)\<rparr>
      = d\<lparr>stores := (stores d)(c \<mapsto> filter (\<lambda>r. JStr (fst r) \<notin> ids (e # es)) q)\<rparr>"
    by simp
  from Cons.IH [OF s1 r] have "deleteAll c es ?d1
      = (None, ?d1\<lparr>stores := (stores ?d1)(c \<mapsto> filter (\<lambda>r. JStr (fst r) \<notin> ids (e # es)) q)\<rparr>)"
    by (simp only: f)
  then have "deleteAll c es ?d1
      = (None, d\<lparr>stores := (stores d)(c \<mapsto> filter (\<lambda>r. JStr (fst r) \<notin> ids (e # es)) q)\<rparr>)"
    by (simp only: u)
  with del show ?case by (simp only: deleteAll.simps sum.case)
qed

lemma deleteAll_clears:
  assumes "stores d c = Some q" and "keyPath c = ''id''" and "keyed c q"
  shows "deleteAll c (store_getAll q) d = (None, d\<lparr>stores := (stores d)(c \<mapsto> [])\<rparr>)"
proof -
  have i: "\<forall>r \<in> set q. getField (snd r) ''id'' = JStr (fst r)"
    using assms(2,3) key_of_SomeD [of c] by (fastforce simp: keyed_def)
  then have a: "\<forall>e \<in> set (store_getAll q). \<exists>k. getField e ''id'' = JStr k"
    by (auto simp: store_getAll_def)
  have "\<forall>r \<in> set q. JStr (fst r) \<in> ids (store_getAll q)"
  proof
    fix r assume r: "r \<in> set q"
    with i have "getField (snd r) ''id'' = JStr (fst r)" by simp
    moreover from r have "snd r \<in> set (store_getAll q)" by (simp add: store_getAll_def)
    ultimately show "JStr (fst r) \<in> ids (store_getAll q)"
      unfolding ids_def by (metis imageI)
  qed
  then have "filter (\<lambda>r. JStr (fst r) \<notin> ids (store_getAll q)) q = []"
    by (simp add: filter_empty_conv)
  with deleteAll_filter [OF assms(1) a] show ?thesis by simp
qed



lemma keyed_put: "keyed c q \<Longrightarrow> key_of c e = Some k \<Longrightarrow> keyed c (store_put k e q)"
  using store_put_records [of k e q] by (auto simp: keyed_def)

lemma putAll_ok:
  assumes "stores d c = Some q"
    and "\<forall>x \<in> set xs. \<exists>e k. x = JObj e \<and> key_of c e = Some k"
  shows "\<exists>d' q'. putAll c xs (Some d) = (None, Some d') \<and> stores d' c = Some q'
     \<and> (\<forall>c'. c' \<noteq> c \<longrightarrow> stores d' c' = stores d c')
     \<and> conflicts d' = conflicts d \<and> syncQueue d' = syncQueue d
     \<and> fst ` set q' = fst ` set q \<union> {k. \<exists>e. JObj e \<in> set xs \<and> key_of c e = Some k}
     \<and> (keyed c q \<longrightarrow> keyed c q')"
  using assms
proof (induction xs arbitrary: d q)
  case Nil
  then show ?case by simp
next
  case (Cons x xs)
  from Cons.prems(2) obtain e k where x: "x = JObj e" and k: "key_of c e = Some k"
    by auto
  let ?d1 = "d\<lparr>stores := (stores d)(c \<mapsto> store_put k e q)\<rparr>"
  have p: "put c e d = Inr ?d1"
    using Cons.prems(1) k by (simp add: put_def)
  have s1: "stores ?d1 c = Some (store_put k e q)" by simp
  from Cons.prems(2) have r: "\<forall>x \<in> set xs. \<exists>e k. x = JObj e \<and> key_of c e = Some k"
    by simp
  from Cons.IH [OF s1 r] obtain d' q' where
    a: "putAll c xs (Some ?d1) = (None, Some d')" and b: "stores d' c = Some q'"
    and o: "\<forall>c'. c' \<noteq> c \<longrightarrow> stores d' c' = stores ?d1 c'"
    and cf: "conflicts d' = conflicts ?d1" and sq: "syncQueue d' = syncQueue ?d1"
    and ks: "fst ` set q' = fst ` set (store_put k e q)
               \<union> {k. \<exists>e. JObj e \<in> set xs \<and> key_of c e = Some k}"
    and kd: "keyed c (store_put k e q) \<longrightarrow> keyed c q'"
    by blast
  have 1: "putAll c (x # xs) (Some d) = (None, Some d')"
    using x p a by simp
  have 2: "\<forall>c'. c' \<noteq> c \<longrightarrow> stores d' c' = stores d c'"
    using o by simp
  have "fst ` set (store_put k e q) = insert k (fst ` set q)"
    using store_put_keys [of k e q] by simp
  with ks x k have 3: "fst ` set q' = fst ` set q
      \<union> {k. \<exists>e. JObj e \<in> set (x # xs) \<and> key_of c e = Some k}"
    by auto
  have 4: "keyed c q \<longrightarrow> keyed c q'"
    using kd keyed_put [OF _ k] by blast
  from 1 b 2 cf sq 3 4 show ?case by auto
qed

lemma ids_keyed:
  assumes "keyed c q" and "keyPath c = ''id''"
  shows "ids (store_getAll q) = JStr ` fst ` set q"
proof -
  have "\<forall>r \<in> set q. getField (snd r) ''id'' = JStr (fst r)"
    using assms key_of_SomeD [of c] by (fastforce simp: keyed_def)
  then have "(\<lambda>r. getField (snd r) ''id'') ` set q = (\<lambda>r. JStr (fst r)) ` set q"
    by (intro image_cong) auto
  moreover have "ids (store_getAll q) = (\<lambda>r. getField (snd r) ''id'') ` set q"
    by (simp add: ids_def store_getAll_def image_image)
  moreover have "(\<lambda>r. JStr (fst r)) ` set q = JStr ` fst ` set q"
    by (simp add: image_image)
  ultimately show ?thesis by simp
qed

lemma clearAllData_ok:
  assumes "db_handle s = Some d"
    and "stores d ''courses'' = Some cs" and "stores d ''rounds'' = Some rs"
    and "stores d ''holeScores'' = Some hs"
    and "keyed ''courses'' cs" and "keyed ''rounds'' rs" and "keyed ''holeScores'' hs"
  shows "\<exists>g. clearAllData s
       = (None, s\<lparr>db_handle := Some g, courses := [], rounds := [], holeScores := []\<rparr>)
     \<and> stores g ''courses'' = Some [] \<and> stores g ''rounds'' = Some []
     \<and> stores g ''holeScores'' = Some []
     \<and> stores g ''settings'' = stores d ''settings''
     \<and> conflicts g = conflicts d \<and> syncQueue g = syncQueue d"
proof -
  let ?d1 = "d\<lparr>stores := (stores d)(''courses'' \<mapsto> [])\<rparr>"
  let ?d2 = "?d1\<lparr>stores := (stores ?d1)(''rounds'' \<mapsto> [])\<rparr>"
  let ?d3 = "?d2\<lparr>stores := (stores ?d2)(''holeScores'' \<mapsto> [])\<rparr>"
  have 1: "deleteAll ''courses'' (store_getAll cs) d = (None, ?d1)"
    using deleteAll_clears [OF assms(2) _ assms(5)] by (simp add: keyPath_def)
  have r1: "stores ?d1 ''rounds'' = Some rs" using assms(3) by simp
  have 2: "deleteAll ''rounds'' (store_getAll rs) ?d1 = (None, ?d2)"
    using deleteAll_clears [OF r1 _ assms(6)] by (simp add: keyPath_def)
  have h2: "stores ?d2 ''holeScores'' = Some hs" using assms(4) by simp
  have 3: "deleteAll ''holeScores'' (store_getAll hs) ?d2 = (None, ?d3)"
    using deleteAll_clears [OF h2 _ assms(7)] by (simp add: keyPath_def)
  have "clearAllData s
       = (None, s\<lparr>db_handle := Some ?d3, courses := [], rounds := [], holeScores := []\<rparr>)"
    unfolding clearAllData_def
    by (simp only: assms(1,2,3,4) getAll_def option.case sum.case 1 2 3 prod.case)
  moreover have "stores ?d3 ''courses'' = Some [] \<and> stores ?d3 ''rounds'' = Some []
     \<and> stores ?d3 ''holeScores'' = Some []
     \<and> stores ?d3 ''settings'' = stores d ''settings''
     \<and> conflicts ?d3 = conflicts d \<and> syncQueue ?d3 = syncQueue d"
    by simp
  ultimately show ?thesis by blast
qed



lemma reparse_exportData:
  assumes "courses s = map JObj ec" and "rounds s = map JObj er"
    and "holeScores s = map JObj eh"
  shows "reparse (exportData s date) = backup ec er eh date"
  using assms by (simp add: exportData_def backup_def storedFields_def)

lemma putAll_stored:
  assumes "stores d c = Some []" and "keyed c q" 
  shows "\<exists>d' q'. putAll c (map (\<lambda>e. JObj (storedFields e)) (store_getAll q)) (Some d)
         = (None, Some d')
     \<and> stores d' c = Some q'
     \<and> (\<forall>c'. c' \<noteq> c \<longrightarrow> stores d' c' = stores d c')
     \<and> conflicts d' = conflicts d \<and> syncQueue d' = syncQueue d
     \<and> fst ` set q' = fst ` set q \<and> keyed c q'"
proof -
  let ?xs = "map (\<lambda>e. JObj (storedFields e)) (store_getAll q)"
  have k: "\<forall>r \<in> set q. key_of c (storedFields (snd r)) = Some (fst r)"
    using assms(2) key_of_stored by (auto simp: keyed_def)
  have a: "\<forall>x \<in> set ?xs. \<exists>e k. x = JObj e \<and> key_of c e = Some k"
    using k by (auto simp: store_getAll_def)
  have e: "keyed c ([] :: entity objectStore)" by (simp add: keyed_def)
  from putAll_ok [OF assms(1) a] e obtain d' q' where
    1: "putAll c ?xs (Some d) = (None, Some d')" and 2: "stores d' c = Some q'"
    and 3: "\<forall>c'. c' \<noteq> c \<longrightarrow> stores d' c' = stores d c'"
    and 4: "conflicts d' = conflicts d" and 5: "syncQueue d' = syncQueue d"
    and 6: "fst ` set q' = fst ` set ([] :: entity objectStore)
               \<union> {k. \<exists>e. JObj e \<in> set ?xs \<and> key_of c e = Some k}"
    and 7: "keyed c q'"
    by blast
  have "{k. \<exists>e. JObj e \<in> set ?xs \<and> key_of c e = Some k} = fst ` set q"
  proof (intro set_eqI iffI)
    fix x assume "x \<in> {k. \<exists>e. JObj e \<in> set ?xs \<and> key_of c e = Some k}"
    then obtain r where "r \<in> set q" and "key_of c (storedFields (snd r)) = Some x"
      by (auto simp: store_getAll_def)
    with k show "x \<in> fst ` set q" by force
  next
    fix x assume "x \<in> fst ` set q"
    then obtain r where r: "r \<in> set q" and x: "x = fst r" by auto
    with k have "key_of c (storedFields (snd r)) = Some x" by simp
    moreover from r have "JObj (storedFields (snd r)) \<in> set ?xs"
      by (auto simp: store_getAll_def)
    ultimately show "x \<in> {k. \<exists>e. JObj e \<in> set ?xs \<and> key_of c e = Some k}" by blast
  qed
  with 6 have "fst ` set q' = fst ` set q" by simp
  with 1 2 3 4 5 7 show ?thesis by blast
qed

lemma importData_steps:
  assumes h: "db_handle s1 = Some g"
   and v1: "checkAll checkCourse cs = None" and v2: "checkAll checkRound rs = None"
   and v3: "checkAll checkHole hs = None"
   and p1: "putAll ''courses'' cs (Some g) = (None, Some g1)"
   and p2: "putAll ''rounds'' rs (Some g1) = (None, Some g2)"
   and p3: "putAll ''holeScores'' hs (Some g2) = (None, Some g3)"
  shows "importData (Some (JObj [(''courses'', JArr cs), (''rounds'', JArr rs),
           (''holeScores'', JArr hs), (''exportDate'', JStr date)])) s1
      = (None, s1\<lparr>db_handle := Some g3, courses := cs, rounds := rs, holeScores := hs\<rparr>)"
  by (simp add: importData_def getField_def v1 v2 v3 h p1 p2 p3)

lemma importData_ok:
  assumes h: "db_handle s1 = Some g"
    and c: "stores g ''courses'' = Some []" and r: "stores g ''rounds'' = Some []"
    and hs: "stores g ''holeScores'' = Some []"
    and kc: "keyed ''courses'' qc" and kr: "keyed ''rounds'' qr" and kh: "keyed ''holeScores'' qh"
    and vc: "\<forall>e \<in> set (store_getAll qc). importable_course e"
    and vr: "\<forall>e \<in> set (store_getAll qr). importable_round e"
    and vh: "\<forall>e \<in> set (store_getAll qh). importable_hole e"
  shows "\<exists>s' g' qc' qr' qh'.
       importData (Some (backup (store_getAll qc) (store_getAll qr) (store_getAll qh) date)) s1
         = (None, s')
     \<and> db_handle s' = Some g'
     \<and> stores g' ''courses'' = Some qc' \<and> fst ` set qc' = fst ` set qc \<and> keyed ''courses'' qc'
     \<and> stores g' ''rounds'' = Some qr' \<and> fst ` set qr' = fst ` set qr \<and> keyed ''rounds'' qr'
     \<and> stores g' ''holeScores'' = Some qh' \<and> fst ` set qh' = fst ` set qh
     \<and> keyed ''holeScores'' qh'
     \<and> stores g' ''settings'' = stores g ''settings''
     \<and> conflicts g' = conflicts g \<and> syncQueue g' = syncQueue g"
proof -
  let ?cs = "map (\<lambda>e. JObj (storedFields e)) (store_getAll qc)"
  let ?rs = "map (\<lambda>e. JObj (storedFields e)) (store_getAll qr)"
  let ?hs = "map (\<lambda>e. JObj (storedFields e)) (store_getAll qh)"
  have v1: "checkAll checkCourse ?cs = None"
    using vc by (intro checkAll_ok) (auto simp: checkCourse_ok)
  have v2: "checkAll checkRound ?rs = None"
    using vr by (intro checkAll_ok) (auto simp: checkRound_ok)
  have v3: "checkAll checkHole ?hs = None"
    using vh by (intro checkAll_ok) (auto simp: checkHole_ok)
  from putAll_stored [OF c kc] obtain g1 qc' where
    p1: "putAll ''courses'' ?cs (Some g) = (None, Some g1)"
    and c1: "stores g1 ''courses'' = Some qc'"
    and o1: "\<forall>c'. c' \<noteq> ''courses'' \<longrightarrow> stores g1 c' = stores g c'"
    and f1: "conflicts g1 = conflicts g" "syncQueue g1 = syncQueue g"
    and k1: "fst ` set qc' = fst ` set qc" "keyed ''courses'' qc'"
    by blast
  from o1 r have r1: "stores g1 ''rounds'' = Some []" by simp
  from putAll_stored [OF r1 kr] obtain g2 qr' where
    p2: "putAll ''rounds'' ?rs (Some g1) = (None, Some g2)"
    and c2: "stores g2 ''rounds'' = Some qr'"
    and o2: "\<forall>c'. c' \<noteq> ''rounds'' \<longrightarrow> stores g2 c' = stores g1 c'"
    and f2: "conflicts g2 = conflicts g1" "syncQueue g2 = syncQueue g1"
    and k2: "fst ` set qr' = fst ` set qr" "keyed ''rounds'' qr'"
    by blast
  from o2 o1 hs have h2: "stores g2 ''holeScores'' = Some []" by simp
  from putAll_stored [OF h2 kh] obtain g3 qh' where
    p3: "putAll ''holeScores'' ?hs (Some g2) = (None, Some g3)"
    and c3: "stores g3 ''holeScores'' = Some qh'"
    and o3: "\<forall>c'. c' \<noteq> ''holeScores'' \<longrightarrow> stores g3 c' = stores g2 c'"
    and f3: "conflicts g3 = conflicts g2" "syncQueue g3 = syncQueue g2"
    and k3: "fst ` set qh' = fst ` set qh" "keyed ''holeScores'' qh'"
    by blast
  have i: "importData (Some (backup (store_getAll qc) (store_getAll qr) (store_getAll qh) date)) s1
      = (None, s1\<lparr>db_handle := Some g3, courses := ?cs, rounds := ?rs, holeScores := ?hs\<rparr>)"
    unfolding backup_def by (rule importData_steps [OF h v1 v2 v3 p1 p2 p3])
  have a: "stores g3 ''courses'' = Some qc'" using o3 o2 c1 by simp
  have b: "stores g3 ''rounds'' = Some qr'" using o3 c2 by simp
  have d: "stores g3 ''settings'' = stores g ''settings''" using o3 o2 o1 by simp
  have e: "conflicts g3 = conflicts g" "syncQueue g3 = syncQueue g"
    using f1 f2 f3 by simp_all
  have j: "db_handle (s1\<lparr>db_handle := Some g3, courses := ?cs, rounds := ?rs, holeScores := ?hs\<rparr>)
      = Some g3" by simp
  have concl: "importData (Some (backup (store_getAll qc) (store_getAll qr) (store_getAll qh) date)) s1
         = (None, s1\<lparr>db_handle := Some g3, courses := ?cs, rounds := ?rs, holeScores := ?hs\<rparr>)
     \<and> db_handle (s1\<lparr>db_handle := Some g3, courses := ?cs, rounds := ?rs, holeScores := ?hs\<rparr>)
         = Some g3
     \<and> stores g3 ''courses'' = Some qc' \<and> fst ` set qc' = fst ` set qc \<and> keyed ''courses'' qc'
     \<and> stores g3 ''rounds'' = Some qr' \<and> fst ` set qr' = fst ` set qr \<and> keyed ''rounds'' qr'
     \<and> stores g3 ''holeScores'' = Some qh' \<and> fst ` set qh' = fst ` set qh
     \<and> keyed ''holeScores'' qh'
     \<and> stores g3 ''settings'' = stores g ''settings''
     \<and> conflicts g3 = conflicts g \<and> syncQueue g3 = syncQueue g"
    using i j a b c3 d e k1 k2 k3 by (intro conjI)
  show ?thesis
    by (rule exI, rule exI, rule exI, rule exI, rule exI, rule concl)
qed

text \<open>
  C9, as amended. Take a hook with the database open whose three lists, which are
  what \<open>exportData\<close> writes, are the \<open>getAll\<close> results of \<open>courses\<close>,
  \<open>rounds\<close> and \<open>holeScores\<close>, each collection keyed, every course with
  a truthy id and name, every round with a truthy id and courseId and a number as
  totalScore, every hole score with a truthy id and roundId and a number as score. Then
  export, clear, import succeeds and leaves each of the three collections with the set
  of ids it had; the other collections (\<open>settings\<close>, \<open>conflicts\<close>, \<open>syncQueue\<close>) are
  neither exported nor cleared and stay as they are.
\<close>

theorem export_clear_import_roundTrip:
  assumes h: "db_handle s = Some d"
    and c: "stores d ''courses'' = Some cs" and r: "stores d ''rounds'' = Some rs"
    and hs: "stores d ''holeScores'' = Some hs"
    and kc: "keyed ''courses'' cs" and kr: "keyed ''rounds'' rs" and kh: "keyed ''holeScores'' hs"
    and ec: "courses s = map JObj (store_getAll cs)"
    and er: "rounds s = map JObj (store_getAll rs)"
    and eh: "holeScores s = map JObj (store_getAll hs)"
    and vc: "\<forall>e \<in> set (store_getAll cs). importable_course e"
    and vr: "\<forall>e \<in> set (store_getAll rs). importable_round e"
    and vh: "\<forall>e \<in> set (store_getAll hs). importable_hole e"
  shows "\<exists>s' d'. roundTrip s exportDate = (None, s') \<and> db_handle s' = Some d'
     \<and> (\<exists>xs. getAll ''courses'' d' = Inr xs \<and> ids xs = ids (store_getAll cs))
     \<and> (\<exists>xs. getAll ''rounds'' d' = Inr xs \<and> ids xs = ids (store_getAll rs))
     \<and> (\<exists>xs. getAll ''holeScores'' d' = Inr xs \<and> ids xs = ids (store_getAll hs))
     \<and> stores d' ''settings'' = stores d ''settings''
     \<and> conflicts d' = conflicts d \<and> syncQueue d' = syncQueue d"
proof -
  from clearAllData_ok [OF h c r hs kc kr kh] obtain g where
    cl: "clearAllData s
       = (None, s\<lparr>db_handle := Some g, courses := [], rounds := [], holeScores := []\<rparr>)"
    and g: "stores g ''courses'' = Some []" "stores g ''rounds'' = Some []"
      "stores g ''holeScores'' = Some []"
    and gs: "stores g ''settings'' = stores d ''settings''"
      "conflicts g = conflicts d" "syncQueue g = syncQueue d"
    by blast
  let ?s1 = "s\<lparr>db_handle := Some g, courses := [], rounds := [], holeScores := []\<rparr>"
  have h1: "db_handle ?s1 = Some g" by simp
  from importData_ok [OF h1 g kc kr kh vc vr vh, of exportDate]
  obtain s' g' qc' qr' qh' where
    i: "importData (Some (backup (store_getAll cs) (store_getAll rs) (store_getAll hs) exportDate))
          ?s1 = (None, s')"
    and d': "db_handle s' = Some g'"
    and a: "stores g' ''courses'' = Some qc'" "fst ` set qc' = fst ` set cs"
      "keyed ''courses'' qc'"
    and b: "stores g' ''rounds'' = Some qr'" "fst ` set qr' = fst ` set rs"
      "keyed ''rounds'' qr'"
    and e: "stores g' ''holeScores'' = Some qh'" "fst ` set qh' = fst ` set hs"
      "keyed ''holeScores'' qh'"
    and o: "stores g' ''settings'' = stores g ''settings''"
      "conflicts g' = conflicts g" "syncQueue g' = syncQueue g"
    by (elim exE conjE) (rule that)
  have rt: "roundTrip s exportDate = (None, s')"
    using cl i reparse_exportData [OF ec er eh, of exportDate]
    by (simp add: roundTrip_def)
  have 1: "getAll ''courses'' g' = Inr (store_getAll qc')
      \<and> ids (store_getAll qc') = ids (store_getAll cs)"
    using a ids_keyed [OF a(3)] ids_keyed [OF kc] by (simp add: getAll_def keyPath_def)
  have 2: "getAll ''rounds'' g' = Inr (store_getAll qr')
      \<and> ids (store_getAll qr') = ids (store_getAll rs)"
    using b ids_keyed [OF b(3)] ids_keyed [OF kr] by (simp add: getAll_def keyPath_def)
  have 3: "getAll ''holeScores'' g' = Inr (store_getAll qh')
      \<and> ids (store_getAll qh') = ids (store_getAll hs)"
    using e ids_keyed [OF e(3)] ids_keyed [OF kh] by (simp add: getAll_def keyPath_def)
  have 4: "stores g' ''settings'' = stores d ''settings''"
    "conflicts g' = conflicts d" "syncQueue g' = syncQueue d"
    using o gs by simp_all
  have concl: "roundTrip s exportDate = (None, s') \<and> db_handle s' = Some g'
     \<and> (\<exists>xs. getAll ''courses'' g' = Inr xs \<and> ids xs = ids (store_getAll cs))
     \<and> (\<exists>xs. getAll ''rounds'' g' = Inr xs \<and> ids xs = ids (store_getAll rs))
     \<and> (\<exists>xs. getAll ''holeScores'' g' = Inr xs \<and> ids xs = ids (store_getAll hs))
     \<and> stores g' ''settings'' = stores d ''settings''
     \<and> conflicts g' = conflicts d \<and> syncQueue g' = syncQueue d"
    using rt d' 4 1 [THEN exI [where P = "\<lambda>xs. getAll ''courses'' g' = Inr xs
                                  \<and> ids xs = ids (store_getAll cs)"]]
      2 [THEN exI [where P = "\<lambda>xs. getAll ''rounds'' g' = Inr xs
                                  \<and> ids xs = ids (store_getAll rs)"]]
      3 [THEN exI [where P = "\<lambda>xs. getAll ''holeScores'' g' = Inr xs
                                  \<and> ids xs = ids (store_getAll hs)"]]
    by (intro conjI)
  show ?thesis
    by (rule exI, rule exI, rule concl)
qed

theorem export_clear_import_roundTrip_witness:
  "db_handle full_hook = Some full_db
   \<and> stores full_db ''courses'' = Some [(''course-1'', ex_local)]
   \<and> stores full_db ''rounds'' = Some [(''round-1'', ex_round)]
   \<and> stores full_db ''holeScores'' = Some [(''hole-round-1-1'', ex_hole)]
   \<and> keyed ''courses'' [(''course-1'', ex_local)]
   \<and> keyed ''rounds'' [(''round-1'', ex_round)]
   \<and> keyed ''holeScores'' [(''hole-round-1-1'', ex_hole)]
   \<and> courses full_hook = map JObj (store_getAll [(''course-1'', ex_local)])
   \<and> rounds full_hook = map JObj (store_getAll [(''round-1'', ex_round)])
   \<and> holeScores full_hook = map JObj (store_getAll [(''hole-round-1-1'', ex_hole)])
   \<and> importable_course ex_local \<and> importable_round ex_round \<and> importable_hole ex_hole
   \<and> (\<exists>s' d'. roundTrip full_hook ''2026-11-03'' = (None, s') \<and> db_handle s' = Some d'
        \<and> (\<exists>xs. getAll ''courses'' d' = Inr xs \<and> ids xs = {JStr ''course-1''})
        \<and> (\<exists>xs. getAll ''rounds'' d' = Inr xs \<and> ids xs = {JStr ''round-1''})
        \<and> (\<exists>xs. getAll ''holeScores'' d' = Inr xs \<and> ids xs = {JStr ''hole-round-1-1''}))"
proof -
  have h: "db_handle full_hook = Some full_db" by (simp add: full_hook_def)
  have c: "stores full_db ''courses'' = Some [(''course-1'', ex_local)]"
    and r: "stores full_db ''rounds'' = Some [(''round-1'', ex_round)]"
    and hs: "stores full_db ''holeScores'' = Some [(''hole-round-1-1'', ex_hole)]"
    by (simp_all add: full_db_def)
  have kc: "keyed ''courses'' [(''course-1'', ex_local)]"
    and kr: "keyed ''rounds'' [(''round-1'', ex_round)]"
    and kh: "keyed ''holeScores'' [(''hole-round-1-1'', ex_hole)]"
    by (simp_all add: keyed_def key_of_def keyPath_def getField_def ex_local_def ex_round_def
          ex_hole_def)
  have ec: "courses full_hook = map JObj (store_getAll [(''course-1'', ex_local)])"
    and er: "rounds full_hook = map JObj (store_getAll [(''round-1'', ex_round)])"
    and eh: "holeScores full_hook = map JObj (store_getAll [(''hole-round-1-1'', ex_hole)])"
    by (simp_all add: full_hook_def store_getAll_def)
  have ic: "importable_course ex_local" and ir: "importable_round ex_round"
    and ih: "importable_hole ex_hole"
    by (simp_all add: importable_course_def importable_round_def importable_hole_def
          getField_def ex_local_def ex_round_def ex_hole_def)
  have vc: "\<forall>e \<in> set (store_getAll [(''course-1'', ex_local)]). importable_course e"
    and vr: "\<forall>e \<in> set (store_getAll [(''round-1'', ex_round)]). importable_round e"
    and vh: "\<forall>e \<in> set (store_getAll [(''hole-round-1-1'', ex_hole)]). importable_hole e"
    using ic ir ih by (simp_all add: store_getAll_def)
  have i1: "ids (store_getAll [(''course-1'', ex_local)]) = {JStr ''course-1''}"
    and i2: "ids (store_getAll [(''round-1'', ex_round)]) = {JStr ''round-1''}"
    and i3: "ids (store_getAll [(''hole-round-1-1'', ex_hole)]) = {JStr ''hole-round-1-1''}"
    by (simp_all add: ids_def store_getAll_def getField_def ex_local_def ex_round_def
          ex_hole_def)
  from export_clear_import_roundTrip [OF h c r hs kc kr kh ec er eh vc vr vh, of "''2026-11-03''"]
  have "\<exists>s' d'. roundTrip full_hook ''2026-11-03'' = (None, s') \<and> db_handle s' = Some d'
        \<and> (\<exists>xs. getAll ''courses'' d' = Inr xs \<and> ids xs = {JStr ''course-1''})
        \<and> (\<exists>xs. getAll ''rounds'' d' = Inr xs \<and> ids xs = {JStr ''round-1''})
        \<and> (\<exists>xs. getAll ''holeScores'' d' = Inr xs \<and> ids xs = {JStr ''hole-round-1-1''})"
    unfolding i1 i2 i3 by (elim exE conjE) (intro exI conjI; assumption)
  with h c r hs kc kr kh ec er eh ic ir ih show ?thesis by (intro conjI)
qed

text \<open>
  C9 as stated fails on states the application itself reaches, in two ways.
  \<^item> With an unscored hole in \<open>holeScores\<close> (the scorecard stores a hole not yet
    played with \<open>score: null\<close>), the import refuses the backup, \<open>score\<close> being no
    number, and the collection that held the hole is left empty by the clear.
  \<^item> After an import the lists of the hook are those of the file, not the content of
    the collections. \<open>exportData\<close> writes the lists: the round trip of \<open>stale_hook\<close>,
    whose records are all valid, reports no error and brings back \<open>course-1\<close> alone;
    \<open>course-0\<close> and \<open>round-1\<close> are lost.
\<close>

theorem roundTrip_loses_records:
  "map_option (getAll ''holeScores'') (db_handle unscored_hook) = Some (Inr [unscored_hole])
   \<and> fst (roundTrip unscored_hook ''2026-11-03'')
       = Some (Error ''Invalid hole score data. Each hole must have id, roundId, and score.'')
   \<and> map_option (getAll ''holeScores'') (db_handle (snd (roundTrip unscored_hook ''2026-11-03'')))
       = Some (Inr [])
   \<and> map_option (getAll ''courses'') (db_handle stale_hook) = Some (Inr [course0, course1])
   \<and> map_option (getAll ''rounds'') (db_handle stale_hook) = Some (Inr [ex_round])
   \<and> courses stale_hook = [JObj course1] \<and> rounds stale_hook = []
   \<and> fst (roundTrip stale_hook ''2026-11-03'') = None
   \<and> map_option (getAll ''courses'') (db_handle (snd (roundTrip stale_hook ''2026-11-03'')))
       = Some (Inr [course1])
   \<and> map_option (getAll ''rounds'') (db_handle (snd (roundTrip stale_hook ''2026-11-03'')))
       = Some (Inr [])"
proof -
  have unscored:
    "map_option (getAll ''holeScores'') (db_handle unscored_hook) = Some (Inr [unscored_hole])
     \<and> fst (roundTrip unscored_hook ''2026-11-03'')
         = Some (Error ''Invalid hole score data. Each hole must have id, roundId, and score.'')
     \<and> map_option (getAll ''holeScores'')
           (db_handle (snd (roundTrip unscored_hook ''2026-11-03''))) = Some (Inr [])"
    by (simp add: roundTrip_def unscored_hook_def unscored_hole_def exportData_def
          clearAllData_def getAll_def store_getAll_def init_def delete_def getField_def
          store_delete_def importData_def checkCourse_def checkRound_def checkHole_def)
  have before:
    "map_option (getAll ''courses'') (db_handle stale_hook) = Some (Inr [course0, course1])
     \<and> map_option (getAll ''rounds'') (db_handle stale_hook) = Some (Inr [ex_round])
     \<and> courses stale_hook = [JObj course1] \<and> rounds stale_hook = []"
    by (simp add: stale_hook_def importData_def one_course_file_def in_step_hook_def
          course0_def course1_def ex_round_def checkCourse_def checkRound_def checkHole_def
          getField_def put_def key_of_def keyPath_def init_def getAll_def store_getAll_def
          less_list_code less_char_def)
  have after:
    "fst (roundTrip stale_hook ''2026-11-03'') = None
     \<and> map_option (getAll ''courses'') (db_handle (snd (roundTrip stale_hook ''2026-11-03'')))
         = Some (Inr [course1])
     \<and> map_option (getAll ''rounds'') (db_handle (snd (roundTrip stale_hook ''2026-11-03'')))
         = Some (Inr [])"
    by (simp add: roundTrip_def exportData_def clearAllData_def delete_def store_delete_def
          stale_hook_def importData_def one_course_file_def in_step_hook_def
          course0_def course1_def ex_round_def checkCourse_def checkRound_def checkHole_def
          getField_def put_def key_of_def keyPath_def init_def getAll_def store_getAll_def
          less_list_code less_char_def)
  from unscored before after show ?thesis by (intro conjI) simp_all
qed

end
